theory Spec2Isabelle
  imports Main "HOL-Library.Word" "HOL-Library.Signed_Division" "HOL-Library.Monad_Syntax"
begin

unbundle bit_operations_syntax

section \<open>The editing core of godit: buffer.go and view.go\<close>

text \<open>
  Conventions of the embedding.
  \<^item> Go's \<open>int\<close> is modelled as \<open>int\<close>: every integer of the two files counts lines,
    bytes or screen cells of data held in memory, so the 64-bit wrap-around is never
    reached. Go's \<open>/\<close> and \<open>%\<close> truncate towards zero: they are \<open>sdiv\<close> and \<open>smod\<close>.
  \<^item> A \<open>*line\<close> is an address (\<open>lref\<close>) into a store of line records, \<open>nil\<close> is
    \<open>None\<close>; the same for \<open>*action_group\<close>. \<open>new(T)\<close> takes the next address of an
    allocation counter and writes the zero value there.
  \<^item> A function that can panic (a nil dereference, a slice bound) returns an
    \<open>option\<close>, and \<open>None\<close> is the panic.
  \<^item> Fields are prefixed with the name of their struct, because the structs share
    field names (\<open>next\<close>, \<open>prev\<close>, \<open>data\<close>, \<open>cursor\<close>).
\<close>

type_synonym byte = "8 word"
type_synonym rune = int
type_synonym lref = nat
type_synonym gref = nat

subsection \<open>unicode/utf8 (Go standard library)\<close>

text \<open>
  \<open>utf8.DecodeRune\<close> is not code of the repository. It is modelled after the standard
  library: the first byte selects the length of the encoding and the range accepted for
  the second byte; an empty slice gives \<open>(RuneError, 0)\<close>, an invalid or truncated
  encoding gives \<open>(RuneError, 1)\<close>.
\<close>

definition RuneError :: rune where
  "RuneError = 0xFFFD"

definition utf8_first :: "byte \<Rightarrow> (nat \<times> byte \<times> byte) option" where
  "utf8_first p0 =
     (if 0xC2 \<le> p0 \<and> p0 \<le> 0xDF then Some (2, 0x80, 0xBF)
      else if p0 = 0xE0 then Some (3, 0xA0, 0xBF)
      else if 0xE1 \<le> p0 \<and> p0 \<le> 0xEC then Some (3, 0x80, 0xBF)
      else if p0 = 0xED then Some (3, 0x80, 0x9F)
      else if 0xEE \<le> p0 \<and> p0 \<le> 0xEF then Some (3, 0x80, 0xBF)
      else if p0 = 0xF0 then Some (4, 0x90, 0xBF)
      else if 0xF1 \<le> p0 \<and> p0 \<le> 0xF3 then Some (4, 0x80, 0xBF)
      else if p0 = 0xF4 then Some (4, 0x80, 0x8F)
      else None)"

definition DecodeRune :: "byte list \<Rightarrow> rune \<times> nat" where
  "DecodeRune p =
     (case p of
        [] \<Rightarrow> (RuneError, 0)
      | p0 # _ \<Rightarrow>
          if p0 < 0x80 then (uint p0, 1)
          else (case utf8_first p0 of
                  None \<Rightarrow> (RuneError, 1)
                | Some (sz, lo, hi) \<Rightarrow>
                    if length p < sz then (RuneError, 1)
                    else let b1 = p ! 1 in
                      if b1 < lo \<or> hi < b1 then (RuneError, 1)
                      else if sz \<le> 2 then
                        (uint (p0 AND 0x1F) * 64 + uint (b1 AND 0x3F), 2)
                      else let b2 = p ! 2 in
                        if b2 < 0x80 \<or> 0xBF < b2 then (RuneError, 1)
                        else if sz \<le> 3 then
                          (uint (p0 AND 0x0F) * 4096 + uint (b1 AND 0x3F) * 64
                             + uint (b2 AND 0x3F), 3)
                        else let b3 = p ! 3 in
                          if b3 < 0x80 \<or> 0xBF < b3 then (RuneError, 1)
                          else
                            (uint (p0 AND 0x07) * 262144 + uint (b1 AND 0x3F) * 4096
                               + uint (b2 AND 0x3F) * 64 + uint (b3 AND 0x3F), 4)))"

lemma utf8_first_size:
  "utf8_first p0 = Some (sz, lo, hi) \<Longrightarrow> 2 \<le> sz \<and> sz \<le> 4"
  by (auto simp: utf8_first_def split: if_splits)

lemma DecodeRune_size:
  assumes "p \<noteq> []"
  shows "1 \<le> snd (DecodeRune p) \<and> snd (DecodeRune p) \<le> length p"
proof -
  from assms obtain p0 ps where p: "p = p0 # ps"
    by (cases p) auto
  show ?thesis
  proof (cases "utf8_first p0")
    case None
    then show ?thesis
      by (simp add: DecodeRune_def p)
  next
    case (Some t)
    obtain sz lo hi where t: "t = (sz, lo, hi)"
      by (cases t) auto
    from utf8_first_size [of p0 sz lo hi] Some t have sz: "2 \<le> sz" "sz \<le> 4"
      by auto
    have "snd (DecodeRune p) = 1 \<or>
          (1 \<le> snd (DecodeRune p) \<and> snd (DecodeRune p) \<le> sz \<and> sz \<le> length p)"
      using Some t sz unfolding DecodeRune_def p Let_def
      by (simp split: if_splits)
    then show ?thesis
      using p by auto
  qed
qed

lemma DecodeRune_drop:
  "p \<noteq> [] \<Longrightarrow> length p - snd (DecodeRune p) < length p"
  using DecodeRune_size [of p] by (cases p) auto

text \<open>The characters of a byte sequence, each with its length in bytes.\<close>

function runes :: "byte list \<Rightarrow> (rune \<times> nat) list" where
  "runes p = (if p = [] then [] else DecodeRune p # runes (drop (snd (DecodeRune p)) p))"
  by pat_completeness auto
termination
  by (relation "measure length") (auto simp: DecodeRune_drop)

declare runes.simps [simp del]
subsection \<open>line\<close>

record line =
  line_data :: "byte list"
  line_next :: "lref option"
  line_prev :: "lref option"

text \<open>
  \<open>line.find_closest_offsets\<close> reads only the bytes of the line. \<open>tabstop_length\<close> is a
  constant of the repository that is not in the two files: it is the parameter \<open>ts\<close>.
  The named results \<open>bo\<close>, \<open>co\<close>, \<open>vo\<close> start at 0.
\<close>

function find_closest_offsets_loop ::
  "int \<Rightarrow> int \<Rightarrow> byte list \<Rightarrow> int \<times> int \<times> int \<Rightarrow> int \<times> int \<times> int" where
  "find_closest_offsets_loop ts voffset dat (bo, co, vo) =
     (if dat = [] then (bo, co, vo)
      else
        let r = fst (DecodeRune dat);
            rlen = snd (DecodeRune dat);
            dat' = drop rlen dat;
            vodif = (if r = 9 then ts - vo smod ts else 1)
        in if vo + vodif > voffset then (bo, co, vo)
           else find_closest_offsets_loop ts voffset dat' (bo + int rlen, co + 1, vo + vodif))"
  by pat_completeness auto
termination
  by (relation "measure (\<lambda>(ts, voffset, dat, acc). length dat)") (auto simp: DecodeRune_drop)

declare find_closest_offsets_loop.simps [simp del]

definition find_closest_offsets :: "int \<Rightarrow> byte list \<Rightarrow> int \<Rightarrow> int \<times> int \<times> int" where
  "find_closest_offsets ts dat voffset = find_closest_offsets_loop ts voffset dat (0, 0, 0)"

subsection \<open>The data model\<close>

text \<open>
  \<open>cursor_location\<close>, \<open>action\<close> and \<open>action_group\<close> are declared in files of the
  repository other than the two at hand; their fields are the ones \<open>view.go\<close> and
  \<open>buffer.go\<close> read and write (the composite literals
  \<open>cursor_location{c.line.next, c.line_num + 1, -1}\<close> and \<open>action{what:, data:, cursor:,
  lines:}\<close>, and \<open>actions\<close>, \<open>next\<close>, \<open>prev\<close>, \<open>before\<close>, \<open>after\<close> of a group).
\<close>

record cursor_location =
  c_line :: "lref option"
  c_line_num :: int
  c_boffset :: int

definition zero_cursor :: cursor_location where
  "zero_cursor = \<lparr>c_line = None, c_line_num = 0, c_boffset = 0\<rparr>"

record view_location =
  cursor :: cursor_location
  top_line :: "lref option"
  top_line_num :: int
  cursor_coffset :: int
  cursor_voffset :: int
  line_voffset :: int
  last_cursor_voffset :: int

datatype action_type = action_type_insert | action_type_delete

record action =
  a_what :: action_type
  a_data :: "byte list"
  a_cursor :: cursor_location
  a_lines :: "lref option list"

record action_group =
  g_actions :: "action list"
  g_next :: "gref option"
  g_prev :: "gref option"
  g_before :: cursor_location
  g_after :: cursor_location

definition zero_line :: line where
  "zero_line = \<lparr>line_data = [], line_next = None, line_prev = None\<rparr>"

definition zero_group :: action_group where
  "zero_group = \<lparr>g_actions = [], g_next = None, g_prev = None,
     g_before = zero_cursor, g_after = zero_cursor\<rparr>"

text \<open>
  The store holds the line records and the action groups. \<open>buffer.views\<close> (the registry
  of attached views) is left out of the buffer: the views other than the acting one
  are a component of the world below.
\<close>

record store =
  lines :: "lref \<Rightarrow> line"
  lines_new :: lref
  groups :: "gref \<Rightarrow> action_group"
  groups_new :: gref

record buffer =
  first_line :: "lref option"
  last_line :: "lref option"
  loc :: view_location
  lines_n :: int
  bytes_n :: int
  history :: "gref option"
  mark :: cursor_location
  path :: string
  name :: string

definition zero_buffer :: buffer where
  "zero_buffer = \<lparr>first_line = None, last_line = None,
     loc = \<lparr>cursor = zero_cursor, top_line = None, top_line_num = 0, cursor_coffset = 0,
       cursor_voffset = 0, line_voffset = 0, last_cursor_voffset = 0\<rparr>,
     lines_n = 0, bytes_n = 0, history = None, mark = zero_cursor, path = [], name = []\<rparr>"

definition new_line :: "'a store_scheme \<Rightarrow> lref \<times> 'a store_scheme" where
  "new_line s =
     (lines_new s, s\<lparr>lines := (lines s)(lines_new s := zero_line),
                     lines_new := Suc (lines_new s)\<rparr>)"

definition new_action_group :: "'a store_scheme \<Rightarrow> gref \<times> 'a store_scheme" where
  "new_action_group s =
     (groups_new s, s\<lparr>groups := (groups s)(groups_new s := zero_group),
                      groups_new := Suc (groups_new s)\<rparr>)"

definition set_line ::
  "lref \<Rightarrow> (line \<Rightarrow> line) \<Rightarrow> 'a store_scheme \<Rightarrow> 'a store_scheme" where
  "set_line l f s = s\<lparr>lines := (lines s)(l := f (lines s l))\<rparr>"

definition set_group ::
  "gref \<Rightarrow> (action_group \<Rightarrow> action_group) \<Rightarrow> 'a store_scheme \<Rightarrow> 'a store_scheme" where
  "set_group g f s = s\<lparr>groups := (groups s)(g := f (groups s g))\<rparr>"

subsection \<open>buffer.go: loading a stream\<close>

text \<open>
  The \<open>io.Reader\<close> handed to \<open>new_buffer_from_reader\<close> delivers the bytes \<open>rd_bytes\<close> and
  then reports \<open>rd_err\<close> (\<open>io.EOF\<close> for a stream that ends, another error for a read
  failure). \<open>bufio.Reader.ReadBytes\<close> (Go standard library) returns the bytes up to and
  including the first delimiter, or, when there is none before the error, the bytes
  read and the error.
\<close>

datatype io_error = EOF | read_failure

record io_reader =
  rd_bytes :: "byte list"
  rd_err :: io_error

definition ReadBytes :: "byte \<Rightarrow> io_reader \<Rightarrow> byte list \<times> io_error option \<times> io_reader" where
  "ReadBytes delim r =
     (case dropWhile (\<lambda>b. b \<noteq> delim) (rd_bytes r) of
        [] \<Rightarrow> (rd_bytes r, Some (rd_err r), r\<lparr>rd_bytes := []\<rparr>)
      | d # rest \<Rightarrow> (takeWhile (\<lambda>b. b \<noteq> delim) (rd_bytes r) @ [d], None, r\<lparr>rd_bytes := rest\<rparr>))"

lemma ReadBytes_shorter:
  "ReadBytes delim r = (d, None, r') \<Longrightarrow> length (rd_bytes r') < length (rd_bytes r)"
proof -
  assume a: "ReadBytes delim r = (d, None, r')"
  have "length (dropWhile (\<lambda>b. b \<noteq> delim) (rd_bytes r)) \<le> length (rd_bytes r)"
    by (rule length_dropWhile_le)
  with a show ?thesis
    by (auto simp: ReadBytes_def split: list.splits)
qed

definition init_history :: "'a store_scheme \<Rightarrow> buffer \<Rightarrow> 'a store_scheme \<times> buffer" where
  "init_history s b =
     (let (sentinel, s1) = new_action_group s;
          (first, s2) = new_action_group s1;
          s3 = set_group sentinel (\<lambda>g. g\<lparr>g_next := Some first\<rparr>) s2;
          s4 = set_group first (\<lambda>g. g\<lparr>g_prev := Some sentinel\<rparr>) s3
      in (s4, b\<lparr>history := Some sentinel\<rparr>))"

text \<open>
  The loop of \<open>new_buffer_from_reader\<close>: its state is the store, the buffer, the line
  \<open>l\<close> being filled and \<open>prevline\<close>; it ends at the first error of \<open>ReadBytes\<close>. Without
  an error the data ends in the newline, which \<open>l.data[:len(l.data)-1]\<close> cuts off.
\<close>

function load_lines ::
  "store \<Rightarrow> buffer \<Rightarrow> lref \<Rightarrow> lref option \<Rightarrow> io_reader
     \<Rightarrow> store \<times> buffer \<times> lref \<times> lref option \<times> io_error" where
  "load_lines s b l prevline r =
     (case ReadBytes 0x0A r of
        (d, Some e, r') \<Rightarrow> (set_line l (\<lambda>x. x\<lparr>line_data := d\<rparr>) s, b, l, prevline, e)
      | (d, None, r') \<Rightarrow>
          let s1 = set_line l (\<lambda>x. x\<lparr>line_data := d\<rparr>) s;
              b1 = b\<lparr>bytes_n := bytes_n b + int (length d)\<rparr>;
              s2 = set_line l (\<lambda>x. x\<lparr>line_data := butlast d\<rparr>) s1;
              b2 = b1\<lparr>lines_n := lines_n b1 + 1\<rparr>;
              (n, s3) = new_line s2;
              s4 = set_line l (\<lambda>x. x\<lparr>line_next := Some n\<rparr>) s3;
              s5 = set_line l (\<lambda>x. x\<lparr>line_prev := prevline\<rparr>) s4
          in load_lines s5 b2 n (Some l) r')"
  by pat_completeness auto
termination
  by (relation "measure (\<lambda>(s, b, l, prevline, r). length (rd_bytes r))")
     (auto dest: ReadBytes_shorter [OF sym])

declare load_lines.simps [simp del]

definition new_buffer_from_reader ::
  "store \<Rightarrow> io_reader \<Rightarrow> store \<times> buffer \<times> io_error option" where
  "new_buffer_from_reader s r =
     (let (l, s1) = new_line s;
          b = zero_buffer\<lparr>loc := (loc zero_buffer)\<lparr>top_line := Some l, top_line_num := 1,
                 cursor := \<lparr>c_line = Some l, c_line_num = 1, c_boffset = 0\<rparr>\<rparr>\<rparr>;
          (s2, b1) = init_history s1 b;
          b2 = b1\<lparr>lines_n := 1\<rparr>;
          b3 = b2\<lparr>first_line := Some l\<rparr>;
          (s3, b4, l', prevline, e) = load_lines s2 b3 l None r;
          s4 = set_line l' (\<lambda>x. x\<lparr>line_prev := prevline\<rparr>) s3;
          b5 = b4\<lparr>last_line := Some l'\<rparr>
      in (s4, b5, if e = EOF then None else Some e))"

subsection \<open>buffer.go: buffer_reader\<close>

text \<open>
  \<open>br.buffer\<close> is the buffer the reader was made from: \<open>Read\<close> takes its \<open>last_line\<close> as
  an argument. The destination slice \<open>data\<close> is modelled by its length \<open>n\<close> and the
  bytes written so far \<open>out\<close> (so \<open>nread\<close> is \<open>length out\<close>). The result is the bytes
  written, the error and the reader. \<open>None\<close> is a run that does not return: a slice
  bound out of range, or a walk that never ends on a store that is not a list.
\<close>

record buffer_reader =
  br_line :: "lref option"
  br_offset :: int

definition new_buffer_reader :: "buffer \<Rightarrow> buffer_reader" where
  "new_buffer_reader b = \<lparr>br_line = first_line b, br_offset = 0\<rparr>"

definition reader :: "buffer \<Rightarrow> buffer_reader" where
  "reader b = new_buffer_reader b"

partial_function (option) Read_loop ::
  "(lref \<Rightarrow> line) \<Rightarrow> lref option \<Rightarrow> nat \<Rightarrow> byte list \<Rightarrow> buffer_reader
     \<Rightarrow> (byte list \<times> io_error option \<times> buffer_reader) option" where
  "Read_loop ls lst n out br =
     (if n = 0 then Some (out, None, br)
      else case br_line br of
        None \<Rightarrow> Some (out, Some EOF, br)
      | Some l \<Rightarrow>
          let dat = line_data (ls l);
              can_read = int (length dat) - br_offset br
          in if br_offset br < 0 \<or> can_read < 0 then None
             else if int n \<le> can_read then
               Some (out @ take n (drop (nat (br_offset br)) dat), None,
                     br\<lparr>br_offset := br_offset br + int n\<rparr>)
             else
               let chunk = drop (nat (br_offset br)) dat;
                   n' = n - length chunk;
                   out' = out @ chunk
               in if 0 < n' \<and> br_line br \<noteq> lst then
                    Read_loop ls lst (n' - 1) (out' @ [0x0A])
                      (br\<lparr>br_line := line_next (ls l), br_offset := 0\<rparr>)
                  else
                    Read_loop ls lst n' out'
                      (br\<lparr>br_line := line_next (ls l), br_offset := 0\<rparr>))"

definition Read ::
  "(lref \<Rightarrow> line) \<Rightarrow> lref option \<Rightarrow> nat \<Rightarrow> buffer_reader
     \<Rightarrow> (byte list \<times> io_error option \<times> buffer_reader) option" where
  "Read ls lst n br = Read_loop ls lst n [] br"

text \<open>
  Reading to exhaustion, as \<open>io.ReadAll\<close> and \<open>io.Copy\<close> do: call \<open>Read\<close> until it
  reports an error, the \<open>i\<close>-th call with a slice of \<open>sizes i\<close> bytes, and collect what
  each call wrote.
\<close>

partial_function (option) read_all ::
  "(lref \<Rightarrow> line) \<Rightarrow> lref option \<Rightarrow> (nat \<Rightarrow> nat) \<Rightarrow> nat \<Rightarrow> buffer_reader \<Rightarrow> byte list
     \<Rightarrow> byte list option" where
  "read_all ls lst sizes i br acc =
     (case Read ls lst (sizes i) br of
        None \<Rightarrow> None
      | Some (out, Some e, br') \<Rightarrow> Some (acc @ out)
      | Some (out, None, br') \<Rightarrow> read_all ls lst sizes (Suc i) br' (acc @ out))"

declare Read_loop.simps [code]
declare read_all.simps [code]

subsection \<open>view.go: the view and its world\<close>

definition dirty_contents :: int where
  "dirty_contents = 1"

definition dirty_status :: int where
  "dirty_status = 2"

definition dirty_everything :: int where
  "dirty_everything = dirty_contents OR dirty_status"

datatype vcommand_class =
  vcommand_class_none
  | vcommand_class_movement
  | vcommand_class_insertion
  | vcommand_class_deletion
  | vcommand_class_history
  | vcommand_class_misc

text \<open>
  A view embeds its \<open>view_location\<close>. Of \<open>uibuf\<close> only the width and the height are
  read; \<open>ac\<close> is the autocompletion session (\<open>*autocompl\<close>, a type of another file: the
  type variable \<open>'ac\<close>). The status reporter \<open>sr\<close> and the buffer \<open>buf\<close> of the
  view are components of the world: the view is attached to the buffer of the world.
\<close>

record 'ac view = view_location +
  uibuf_Width :: int
  uibuf_Height :: int
  dirty :: int
  oneline :: bool
  ac :: "'ac option"
  last_vcommand_class :: vcommand_class

text \<open>
  The world of a command: the store, the buffer \<open>v.buf\<close>, the acting view \<open>v\<close>, the
  other views attached to the buffer (\<open>others\<close>, reached only through \<open>action.apply\<close>
  and \<open>action.revert\<close>) and the messages handed to \<open>v.sr.set_status\<close>, the last one
  first.
\<close>

record ('ac, 'x) world = store +
  buf :: buffer
  view :: "'ac view"
  others :: 'x
  sr :: "string list"

text \<open>
  What the two files use and do not define is a parameter: the constants
  \<open>tabstop_length\<close>, \<open>view_vertical_threshold\<close> and \<open>view_horizontal_threshold\<close>, the
  methods of \<open>cursor_location\<close>, \<open>action\<close>, \<open>action_group\<close> and \<open>autocompl\<close>. The
  cursor methods read the line store; the ones with a pointer receiver return the
  moved cursor.
\<close>

record ('ac, 'x) env =
  tabstop_length :: int
  view_vertical_threshold :: int
  view_horizontal_threshold :: int
  voffset_coffset :: "(lref \<Rightarrow> line) \<Rightarrow> cursor_location \<Rightarrow> int \<times> int"
  move_one_rune_forward :: "(lref \<Rightarrow> line) \<Rightarrow> cursor_location \<Rightarrow> cursor_location"
  move_one_rune_backward :: "(lref \<Rightarrow> line) \<Rightarrow> cursor_location \<Rightarrow> cursor_location"
  move_beginning_of_line :: "(lref \<Rightarrow> line) \<Rightarrow> cursor_location \<Rightarrow> cursor_location"
  move_end_of_line :: "(lref \<Rightarrow> line) \<Rightarrow> cursor_location \<Rightarrow> cursor_location"
  move_one_word_forward :: "(lref \<Rightarrow> line) \<Rightarrow> cursor_location \<Rightarrow> cursor_location \<times> bool"
  move_one_word_backward :: "(lref \<Rightarrow> line) \<Rightarrow> cursor_location \<Rightarrow> cursor_location \<times> bool"
  rune_before :: "(lref \<Rightarrow> line) \<Rightarrow> cursor_location \<Rightarrow> rune \<times> int"
  rune_under :: "(lref \<Rightarrow> line) \<Rightarrow> cursor_location \<Rightarrow> rune \<times> int"
  extract_bytes :: "(lref \<Rightarrow> line) \<Rightarrow> cursor_location \<Rightarrow> int \<Rightarrow> byte list"
  distance :: "(lref \<Rightarrow> line) \<Rightarrow> cursor_location \<Rightarrow> cursor_location \<Rightarrow> int"
  on_insert_adjust :: "(lref \<Rightarrow> line) \<Rightarrow> cursor_location \<Rightarrow> action \<Rightarrow> cursor_location"
  on_delete_adjust :: "(lref \<Rightarrow> line) \<Rightarrow> cursor_location \<Rightarrow> action \<Rightarrow> cursor_location"
  deleted_lines :: "action \<Rightarrow> int \<times> int"
  action_apply :: "action \<Rightarrow> ('ac, 'x) world \<Rightarrow> ('ac, 'x) world"
  action_revert :: "action \<Rightarrow> ('ac, 'x) world \<Rightarrow> ('ac, 'x) world"
  group_append :: "action list \<Rightarrow> action \<Rightarrow> action list"
  new_autocompl :: "('ac, 'x) world \<Rightarrow> 'ac option"
  autocompl_update :: "'ac \<Rightarrow> cursor_location \<Rightarrow> 'ac \<times> bool"
  autocompl_finalize :: "'ac \<Rightarrow> ('ac, 'x) world \<Rightarrow> ('ac, 'x) world"
  autocompl_move_cursor_up :: "'ac \<Rightarrow> 'ac"
  autocompl_move_cursor_down :: "'ac \<Rightarrow> 'ac"

definition height :: "'ac view \<Rightarrow> int" where
  "height v = (if \<not> oneline v then uibuf_Height v - 1 else uibuf_Height v)"

definition width :: "'ac view \<Rightarrow> int" where
  "width v = uibuf_Width v"

definition vertical_threshold :: "('ac, 'x) env \<Rightarrow> 'ac view \<Rightarrow> int" where
  "vertical_threshold E v =
     (let max_v_threshold = (height v - 1) sdiv 2
      in if view_vertical_threshold E > max_v_threshold then max_v_threshold
         else view_vertical_threshold E)"

definition horizontal_threshold :: "('ac, 'x) env \<Rightarrow> 'ac view \<Rightarrow> int" where
  "horizontal_threshold E v =
     (let max_h_threshold = (width v - 1) sdiv 2
      in if view_horizontal_threshold E > max_h_threshold then max_h_threshold
         else view_horizontal_threshold E)"

text \<open>
  The two loops of \<open>move_top_line_n_times\<close>, \<open>move_cursor_line_n_times\<close> and
  \<open>can_move_top_line_n_times\<close>: walk \<open>prev\<close> while \<open>n < 0\<close>, then \<open>next\<close> while \<open>n > 0\<close>,
  carrying the line, its number and \<open>n\<close>.
\<close>

function walk_prev :: "(lref \<Rightarrow> line) \<Rightarrow> lref \<Rightarrow> int \<Rightarrow> int \<Rightarrow> lref \<times> int \<times> int" where
  "walk_prev ls l num n =
     (case line_prev (ls l) of
        None \<Rightarrow> (l, num, n)
      | Some p \<Rightarrow> if n < 0 then walk_prev ls p (num - 1) (n + 1) else (l, num, n))"
  by pat_completeness auto
termination
  by (relation "measure (\<lambda>(ls, l, num, n). nat (- n))") auto

function walk_next :: "(lref \<Rightarrow> line) \<Rightarrow> lref \<Rightarrow> int \<Rightarrow> int \<Rightarrow> lref \<times> int \<times> int" where
  "walk_next ls l num n =
     (case line_next (ls l) of
        None \<Rightarrow> (l, num, n)
      | Some p \<Rightarrow> if n > 0 then walk_next ls p (num + 1) (n - 1) else (l, num, n))"
  by pat_completeness auto
termination
  by (relation "measure (\<lambda>(ls, l, num, n). nat n)") auto

declare walk_prev.simps [simp del]
declare walk_next.simps [simp del]

definition move_top_line_n_times :: "(lref \<Rightarrow> line) \<Rightarrow> int \<Rightarrow> 'ac view \<Rightarrow> 'ac view option" where
  "move_top_line_n_times ls n v =
     (if n = 0 then Some v
      else case top_line v of
        None \<Rightarrow> None
      | Some topl \<Rightarrow>
          let (top1, num1, n1) = walk_prev ls topl (top_line_num v) n;
              (top2, num2, n2) = walk_next ls top1 num1 n1
          in Some (v\<lparr>top_line := Some top2, top_line_num := num2\<rparr>))"

definition move_cursor_line_n_times :: "(lref \<Rightarrow> line) \<Rightarrow> int \<Rightarrow> 'ac view \<Rightarrow> 'ac view option" where
  "move_cursor_line_n_times ls n v =
     (if n = 0 then Some v
      else case c_line (cursor v) of
        None \<Rightarrow> None
      | Some cur \<Rightarrow>
          let (cur1, num1, n1) = walk_prev ls cur (c_line_num (cursor v)) n;
              (cur2, num2, n2) = walk_next ls cur1 num1 n1
          in Some (v\<lparr>cursor := (cursor v)\<lparr>c_line := Some cur2, c_line_num := num2\<rparr>\<rparr>))"

definition adjusted_line_voffset :: "('ac, 'x) env \<Rightarrow> 'ac view \<Rightarrow> int" where
  "adjusted_line_voffset E v =
     (let ht = horizontal_threshold E v;
          w = uibuf_Width v;
          vo = line_voffset v;
          cvo = cursor_voffset v;
          threshold = w - 1;
          threshold = (if vo \<noteq> 0 then threshold - (ht - 1) else threshold);
          vo = (if cvo - vo \<ge> threshold then cvo + (ht - w + 1) else vo);
          vo = (if vo \<noteq> 0 \<and> cvo - vo < ht then (if cvo - ht < 0 then 0 else cvo - ht) else vo)
      in vo)"

definition adjust_line_voffset :: "('ac, 'x) env \<Rightarrow> 'ac view \<Rightarrow> 'ac view" where
  "adjust_line_voffset E v =
     (let vo = adjusted_line_voffset E v
      in if line_voffset v \<noteq> vo then v\<lparr>line_voffset := vo, dirty := dirty_everything\<rparr> else v)"

text \<open>
  \<open>adjust_cursor_line\<close>; its last step, taken when the line of the cursor is not the
  one it was, is \<open>cursor_line_changed\<close>.
\<close>

definition cursor_line_changed ::
  "('ac, 'x) env \<Rightarrow> (lref \<Rightarrow> line) \<Rightarrow> lref \<Rightarrow> 'ac view \<Rightarrow> 'ac view option" where
  "cursor_line_changed E ls cur v =
     (if Some cur \<noteq> c_line (cursor v) then
        (case c_line (cursor v) of
           None \<Rightarrow> None
         | Some cur2 \<Rightarrow>
             let (bo, co, vo) = find_closest_offsets (tabstop_length E)
                                  (line_data (ls cur2)) (last_cursor_voffset v);
                 v3 = v\<lparr>cursor := (cursor v)\<lparr>c_boffset := bo\<rparr>,
                        cursor_coffset := co, cursor_voffset := vo, line_voffset := 0\<rparr>;
                 v4 = adjust_line_voffset E v3
             in Some (v4\<lparr>dirty := dirty_everything\<rparr>))
      else Some v)"

definition adjust_cursor_line ::
  "('ac, 'x) env \<Rightarrow> (lref \<Rightarrow> line) \<Rightarrow> 'ac view \<Rightarrow> 'ac view option" where
  "adjust_cursor_line E ls v =
     (case c_line (cursor v) of
        None \<Rightarrow> None
      | Some cur \<Rightarrow>
          let vt = vertical_threshold E v;
              co = c_line_num (cursor v) - top_line_num v;
              h = height v
          in do {
            v1 \<leftarrow> (if line_next (ls cur) \<noteq> None \<and> co < vt
                   then move_cursor_line_n_times ls (vt - co) v else Some v);
            v2 \<leftarrow> (if line_prev (ls cur) \<noteq> None \<and> co \<ge> h - vt
                   then move_cursor_line_n_times ls ((h - vt) - co - 1) v1 else Some v1);
            cursor_line_changed E ls cur v2
          })"

definition adjust_top_line ::
  "('ac, 'x) env \<Rightarrow> (lref \<Rightarrow> line) \<Rightarrow> 'ac view \<Rightarrow> 'ac view option" where
  "adjust_top_line E ls v =
     (case top_line v of
        None \<Rightarrow> None
      | Some topl \<Rightarrow>
          let vt = vertical_threshold E v;
              co = c_line_num (cursor v) - top_line_num v;
              h = height v
          in do {
            v1 \<leftarrow> (if line_next (ls topl) \<noteq> None \<and> co \<ge> h - vt
                   then map_option (\<lambda>x. x\<lparr>dirty := dirty_everything\<rparr>)
                          (move_top_line_n_times ls (co - (h - vt) + 1) v)
                   else Some v);
            (if line_prev (ls topl) \<noteq> None \<and> co < vt
             then map_option (\<lambda>x. x\<lparr>dirty := dirty_everything\<rparr>)
                    (move_top_line_n_times ls (co - vt) v1)
             else Some v1)
          })"

definition cursor_position :: "'ac view \<Rightarrow> int \<times> int" where
  "cursor_position v =
     (let y = c_line_num (cursor v) - top_line_num v;
          x = cursor_voffset v - line_voffset v
      in (x, y))"

text \<open>
  \<open>move_cursor_to\<close>, in its steps: the offsets of the cursor
  (\<open>c.line.find_closest_offsets\<close> reads \<open>c.line.data\<close>: a nil line is a panic), the
  line of the cursor, the two scroll adjustments, the autocompletion session.
\<close>

definition set_cursor_offsets ::
  "('ac, 'x) env \<Rightarrow> (lref \<Rightarrow> line) \<Rightarrow> cursor_location \<Rightarrow> 'ac view \<Rightarrow> 'ac view option" where
  "set_cursor_offsets E ls c v =
     (if c_boffset c < 0 then
        (case c_line c of
           None \<Rightarrow> None
         | Some l \<Rightarrow>
             let (bo, co, vo) = find_closest_offsets (tabstop_length E)
                                  (line_data (ls l)) (last_cursor_voffset v)
             in Some (v\<lparr>cursor := (cursor v)\<lparr>c_boffset := bo\<rparr>,
                        cursor_coffset := co, cursor_voffset := vo\<rparr>))
      else
        let (vo, co) = voffset_coffset E ls c
        in Some (v\<lparr>cursor := (cursor v)\<lparr>c_boffset := c_boffset c\<rparr>,
                   cursor_coffset := co, cursor_voffset := vo\<rparr>))"

definition set_cursor_line :: "cursor_location \<Rightarrow> 'ac view \<Rightarrow> 'ac view" where
  "set_cursor_line c v =
     (let v1 = (if c_line c = c_line (cursor v)
                then v\<lparr>last_cursor_voffset := cursor_voffset v\<rparr>
                else v\<lparr>line_voffset := 0\<rparr>)
      in v1\<lparr>cursor := (cursor v1)\<lparr>c_line := c_line c, c_line_num := c_line_num c\<rparr>\<rparr>)"

definition update_autocompl :: "('ac, 'x) env \<Rightarrow> 'ac view \<Rightarrow> 'ac view" where
  "update_autocompl E v =
     (case ac v of
        None \<Rightarrow> v
      | Some a \<Rightarrow>
          let (a', ok) = autocompl_update E a (cursor v)
          in if \<not> ok then v\<lparr>ac := None\<rparr> else v\<lparr>ac := Some a'\<rparr>)"

definition move_cursor_to ::
  "('ac, 'x) env \<Rightarrow> (lref \<Rightarrow> line) \<Rightarrow> cursor_location \<Rightarrow> 'ac view \<Rightarrow> 'ac view option" where
  "move_cursor_to E ls c v =
     do {
       v1 \<leftarrow> set_cursor_offsets E ls c (v\<lparr>dirty := dirty v OR dirty_status\<rparr>);
       let v2 = set_cursor_line c v1;
       let v3 = adjust_line_voffset E v2;
       v4 \<leftarrow> adjust_top_line E ls v3;
       Some (update_autocompl E v4)
     }"

subsection \<open>view.go: notifications from another view's edit\<close>

definition on_insert_adjust_top_line :: "action \<Rightarrow> 'ac view \<Rightarrow> 'ac view" where
  "on_insert_adjust_top_line a v =
     (if c_line_num (a_cursor a) < top_line_num v \<and> int (length (a_lines a)) > 0
      then v\<lparr>top_line_num := top_line_num v + int (length (a_lines a)),
             dirty := dirty v OR dirty_status\<rparr>
      else v)"

definition on_delete_adjust_top_line ::
  "('ac, 'x) env \<Rightarrow> (lref \<Rightarrow> line) \<Rightarrow> action \<Rightarrow> 'ac view \<Rightarrow> 'ac view option" where
  "on_delete_adjust_top_line E ls a v =
     (if c_line_num (a_cursor a) < top_line_num v then
        if length (a_lines a) = 0 then Some v
        else
          let topnum = top_line_num v;
              (dfirst, dlast) = deleted_lines E a
          in if dfirst \<le> topnum \<and> topnum \<le> dlast then
               (case c_line (a_cursor a) of
                  None \<Rightarrow> None
                | Some al \<Rightarrow>
                    let v1 = (if line_next (ls al) \<noteq> None
                              then v\<lparr>top_line := line_next (ls al),
                                     top_line_num := c_line_num (a_cursor a) + 1\<rparr>
                              else v\<lparr>top_line := c_line (a_cursor a),
                                     top_line_num := c_line_num (a_cursor a)\<rparr>)
                    in Some (v1\<lparr>dirty := dirty_everything\<rparr>))
             else Some (v\<lparr>top_line_num := top_line_num v - int (length (a_lines a)),
                          dirty := dirty v OR dirty_status\<rparr>)
      else Some v)"

definition on_insert ::
  "('ac, 'x) env \<Rightarrow> (lref \<Rightarrow> line) \<Rightarrow> action \<Rightarrow> 'ac view \<Rightarrow> 'ac view option" where
  "on_insert E ls a v0 =
     (let v = on_insert_adjust_top_line a v0
      in if top_line_num v + height v \<le> c_line_num (a_cursor a) then Some v
         else if c_line_num (a_cursor a) < top_line_num v then
           (if int (length (a_lines a)) > 0
            then Some (v\<lparr>cursor := (cursor v)\<lparr>c_line_num :=
                           c_line_num (cursor v) + int (length (a_lines a))\<rparr>,
                         dirty := dirty v OR dirty_status\<rparr>)
            else Some v)
         else do {
           let c = on_insert_adjust E ls (cursor v) a;
           v1 \<leftarrow> move_cursor_to E ls c v;
           Some (v1\<lparr>last_cursor_voffset := cursor_voffset v1, dirty := dirty_everything\<rparr>)
         })"

definition on_delete_commit ::
  "('ac, 'x) env \<Rightarrow> (lref \<Rightarrow> line) \<Rightarrow> action \<Rightarrow> 'ac view \<Rightarrow> 'ac view option" where
  "on_delete_commit E ls a v =
     do {
       let c = on_delete_adjust E ls (cursor v) a;
       v1 \<leftarrow> move_cursor_to E ls c v;
       Some (v1\<lparr>last_cursor_voffset := cursor_voffset v1, dirty := dirty_everything\<rparr>)
     }"

definition on_delete ::
  "('ac, 'x) env \<Rightarrow> (lref \<Rightarrow> line) \<Rightarrow> action \<Rightarrow> 'ac view \<Rightarrow> 'ac view option" where
  "on_delete E ls a v0 =
     do {
       v \<leftarrow> on_delete_adjust_top_line E ls a v0;
       if top_line_num v + height v \<le> c_line_num (a_cursor a) then Some v
       else if c_line_num (a_cursor a) < top_line_num v then
         (if length (a_lines a) = 0 then Some v
          else
            let (dfirst, dlast) = deleted_lines E a
            in if dlast < top_line_num v
               then Some (v\<lparr>cursor := (cursor v)\<lparr>c_line_num :=
                              c_line_num (cursor v) - int (length (a_lines a))\<rparr>,
                            dirty := dirty v OR dirty_status\<rparr>)
               else on_delete_commit E ls a v)
       else on_delete_commit E ls a v
     }"


subsection \<open>view.go: the undo history\<close>

text \<open>
  \<open>with_view\<close> runs a function of the view on the acting view of the world;
  \<open>set_status\<close> hands a message to the status reporter.
\<close>

definition with_view ::
  "((lref \<Rightarrow> line) \<Rightarrow> 'ac view \<Rightarrow> 'ac view option) \<Rightarrow> ('ac, 'x) world \<Rightarrow> ('ac, 'x) world option" where
  "with_view f w = map_option (\<lambda>v. w\<lparr>view := v\<rparr>) (f (lines w) (view w))"

definition set_status :: "string \<Rightarrow> ('ac, 'x) world \<Rightarrow> ('ac, 'x) world" where
  "set_status msg w = w\<lparr>sr := msg # sr w\<rparr>"

text \<open>
  Modelled from the spec: the reach of \<open>action.apply\<close> and \<open>action.revert\<close>, which
  are not in the two files. They splice the lines of the buffer and notify the other
  views (section 4.3 of the specification). Of what the parameter returns, the world
  keeps the line store, the line bookkeeping and the mark of the buffer, and the other
  views: the history and the acting view are out of its reach.
\<close>

definition frame :: "('ac, 'x) world \<Rightarrow> ('ac, 'x) world \<Rightarrow> ('ac, 'x) world" where
  "frame w w' =
     w\<lparr>lines := lines w', lines_new := lines_new w',
       buf := (buf w)\<lparr>first_line := first_line (buf w'), last_line := last_line (buf w'),
                lines_n := lines_n (buf w'), bytes_n := bytes_n (buf w'),
                mark := mark (buf w')\<rparr>,
       others := others w'\<rparr>"

definition apply_action :: "('ac, 'x) env \<Rightarrow> action \<Rightarrow> ('ac, 'x) world \<Rightarrow> ('ac, 'x) world" where
  "apply_action E a w = frame w (action_apply E a w)"

definition revert_action :: "('ac, 'x) env \<Rightarrow> action \<Rightarrow> ('ac, 'x) world \<Rightarrow> ('ac, 'x) world" where
  "revert_action E a w = frame w (action_revert E a w)"

definition maybe_next_action_group :: "('ac, 'x) world \<Rightarrow> ('ac, 'x) world option" where
  "maybe_next_action_group w =
     (case history (buf w) of
        None \<Rightarrow> None
      | Some h \<Rightarrow>
          (case g_next (groups w h) of
             None \<Rightarrow> Some w
           | Some n \<Rightarrow>
               let w1 = w\<lparr>buf := (buf w)\<lparr>history := Some n\<rparr>\<rparr>;
                   w2 = set_group n (\<lambda>g. g\<lparr>g_prev := Some h\<rparr>) w1;
                   w3 = set_group n (\<lambda>g. g\<lparr>g_next := None\<rparr>) w2;
                   w4 = set_group n (\<lambda>g. g\<lparr>g_actions := []\<rparr>) w3
               in Some (set_group n (\<lambda>g. g\<lparr>g_before := cursor (view w4)\<rparr>) w4)))"

definition finalize_action_group :: "('ac, 'x) world \<Rightarrow> ('ac, 'x) world option" where
  "finalize_action_group w =
     (case history (buf w) of
        None \<Rightarrow> None
      | Some h \<Rightarrow>
          if g_next (groups w h) = None then
            let (n, w1) = new_action_group w;
                w2 = set_group h (\<lambda>g. g\<lparr>g_next := Some n\<rparr>) w1
            in Some (set_group h (\<lambda>g. g\<lparr>g_after := cursor (view w2)\<rparr>) w2)
          else Some w)"

text \<open>
  The loop of \<open>undo\<close>: \<open>i\<close> runs from \<open>len(b.history.actions) - 1\<close> down to 0, and
  \<open>b.history.actions[i]\<close> is read again at every turn (an index out of range is a
  panic). The loop of \<open>redo\<close> ranges over the length of the slice at its start.
\<close>

function undo_loop :: "('ac, 'x) env \<Rightarrow> int \<Rightarrow> ('ac, 'x) world \<Rightarrow> ('ac, 'x) world option" where
  "undo_loop E i w =
     (if i \<ge> 0 then
        (case history (buf w) of
           None \<Rightarrow> None
         | Some h \<Rightarrow>
             let acts = g_actions (groups w h)
             in if i < int (length acts)
                then undo_loop E (i - 1) (revert_action E (acts ! nat i) w)
                else None)
      else Some w)"
  by pat_completeness auto
termination
  by (relation "measure (\<lambda>(E, i, w). nat (i + 1))") auto

function redo_loop ::
  "('ac, 'x) env \<Rightarrow> int \<Rightarrow> int \<Rightarrow> ('ac, 'x) world \<Rightarrow> ('ac, 'x) world option" where
  "redo_loop E n i w =
     (if i < n then
        (case history (buf w) of
           None \<Rightarrow> None
         | Some h \<Rightarrow>
             let acts = g_actions (groups w h)
             in if 0 \<le> i \<and> i < int (length acts)
                then redo_loop E n (i + 1) (apply_action E (acts ! nat i) w)
                else None)
      else Some w)"
  by pat_completeness auto
termination
  by (relation "measure (\<lambda>(E, n, i, w). nat (n - i))") auto

declare undo_loop.simps [simp del]
declare redo_loop.simps [simp del]

definition undo :: "('ac, 'x) env \<Rightarrow> ('ac, 'x) world \<Rightarrow> ('ac, 'x) world option" where
  "undo E w =
     (case history (buf w) of
        None \<Rightarrow> None
      | Some h \<Rightarrow>
          if g_prev (groups w h) = None then Some w
          else do {
            w1 \<leftarrow> finalize_action_group w;
            h1 \<leftarrow> history (buf w1);
            w2 \<leftarrow> undo_loop E (int (length (g_actions (groups w1 h1))) - 1) w1;
            h2 \<leftarrow> history (buf w2);
            w3 \<leftarrow> with_view (\<lambda>ls. move_cursor_to E ls (g_before (groups w2 h2))) w2;
            let w4 = w3\<lparr>view := (view w3)\<lparr>last_cursor_voffset := cursor_voffset (view w3)\<rparr>\<rparr>;
            h4 \<leftarrow> history (buf w4);
            Some (w4\<lparr>buf := (buf w4)\<lparr>history := g_prev (groups w4 h4)\<rparr>\<rparr>)
          })"

definition redo :: "('ac, 'x) env \<Rightarrow> ('ac, 'x) world \<Rightarrow> ('ac, 'x) world option" where
  "redo E w =
     (case history (buf w) of
        None \<Rightarrow> None
      | Some h \<Rightarrow>
          (case g_next (groups w h) of
             None \<Rightarrow> Some w
           | Some n \<Rightarrow>
               if length (g_actions (groups w n)) = 0 then Some w
               else do {
                 let w1 = w\<lparr>buf := (buf w)\<lparr>history := Some n\<rparr>\<rparr>;
                 w2 \<leftarrow> redo_loop E (int (length (g_actions (groups w1 n)))) 0 w1;
                 h2 \<leftarrow> history (buf w2);
                 w3 \<leftarrow> with_view (\<lambda>ls. move_cursor_to E ls (g_after (groups w2 h2))) w2;
                 Some (w3\<lparr>view := (view w3)\<lparr>last_cursor_voffset := cursor_voffset (view w3)\<rparr>\<rparr>)
               }))"

text \<open>
  \<open>action_insert\<close> and \<open>action_delete\<close>. \<open>bytes.Count(data, []byte{'\n'})\<close> counts the
  newline bytes; \<open>new_lines\<close> is the loop that fills \<open>a.lines\<close> with new lines and
  \<open>next_lines\<close> the loop that fills it with the lines after the cursor's.
\<close>

definition count_newlines :: "byte list \<Rightarrow> nat" where
  "count_newlines dat = length (filter (\<lambda>b. b = 0x0A) dat)"

fun new_lines :: "nat \<Rightarrow> 'a store_scheme \<Rightarrow> lref option list \<times> 'a store_scheme" where
  "new_lines 0 s = ([], s)"
| "new_lines (Suc k) s =
     (let (l, s1) = new_line s;
          (ls, s2) = new_lines k s1
      in (Some l # ls, s2))"

fun next_lines :: "(lref \<Rightarrow> line) \<Rightarrow> nat \<Rightarrow> lref option \<Rightarrow> lref option list option" where
  "next_lines ls 0 l = Some []"
| "next_lines ls (Suc k) l =
     (case l of
        None \<Rightarrow> None
      | Some x \<Rightarrow> map_option (\<lambda>r. line_next (ls x) # r) (next_lines ls k (line_next (ls x))))"

definition history_append ::
  "('ac, 'x) env \<Rightarrow> action \<Rightarrow> ('ac, 'x) world \<Rightarrow> ('ac, 'x) world option" where
  "history_append E a w =
     (case history (buf w) of
        None \<Rightarrow> None
      | Some h \<Rightarrow> Some (set_group h (\<lambda>g. g\<lparr>g_actions := group_append E (g_actions g) a\<rparr>) w))"

definition action_insert ::
  "('ac, 'x) env \<Rightarrow> cursor_location \<Rightarrow> byte list \<Rightarrow> ('ac, 'x) world \<Rightarrow> ('ac, 'x) world option" where
  "action_insert E c dat w =
     do {
       w1 \<leftarrow> maybe_next_action_group w;
       let (ls, w2) = new_lines (count_newlines dat) w1;
       let a = \<lparr>a_what = action_type_insert, a_data = dat, a_cursor = c, a_lines = ls\<rparr>;
       let w3 = apply_action E a w2;
       history_append E a w3
     }"

definition action_delete ::
  "('ac, 'x) env \<Rightarrow> cursor_location \<Rightarrow> int \<Rightarrow> ('ac, 'x) world \<Rightarrow> ('ac, 'x) world option" where
  "action_delete E c nbytes w =
     do {
       w1 \<leftarrow> maybe_next_action_group w;
       let d = extract_bytes E (lines w1) c nbytes;
       ls \<leftarrow> next_lines (lines w1) (count_newlines d) (c_line c);
       let a = \<lparr>a_what = action_type_delete, a_data = d, a_cursor = c, a_lines = ls\<rparr>;
       let w2 = apply_action E a w1;
       history_append E a w2
     }"


subsection \<open>view.go: the commands\<close>

text \<open>
  \<open>utf8.EncodeRune\<close> (Go standard library): the UTF-8 encoding of a rune; a rune that
  is negative, beyond \<open>0x10FFFF\<close> or a surrogate is encoded as \<open>RuneError\<close>.
\<close>

definition EncodeRune :: "rune \<Rightarrow> byte list" where
  "EncodeRune r =
     (if 0 \<le> r \<and> r \<le> 0x7F then [word_of_int r]
      else if 0 \<le> r \<and> r \<le> 0x7FF then
        [0xC0 OR word_of_int (r div 64), 0x80 OR (word_of_int r AND 0x3F)]
      else if r < 0 \<or> 0x10FFFF < r \<or> (0xD800 \<le> r \<and> r \<le> 0xDFFF) then [0xEF, 0xBF, 0xBD]
      else if r \<le> 0xFFFF then
        [0xE0 OR word_of_int (r div 4096), 0x80 OR (word_of_int (r div 64) AND 0x3F),
         0x80 OR (word_of_int r AND 0x3F)]
      else
        [0xF0 OR word_of_int (r div 262144), 0x80 OR (word_of_int (r div 4096) AND 0x3F),
         0x80 OR (word_of_int (r div 64) AND 0x3F), 0x80 OR (word_of_int r AND 0x3F)])"

text \<open>
  Modelled from the spec: \<open>cursor_location.last_line\<close>, \<open>first_line\<close>, \<open>eol\<close> and \<open>bol\<close>,
  which are not in the two files. The cursor is on the last (first) line when its line
  has no next (previous) line, at the end of the line when its byte offset is the
  length of the line, and at the beginning when the offset is 0.
\<close>

definition c_last_line :: "(lref \<Rightarrow> line) \<Rightarrow> cursor_location \<Rightarrow> bool option" where
  "c_last_line ls c = map_option (\<lambda>l. line_next (ls l) = None) (c_line c)"

definition c_first_line :: "(lref \<Rightarrow> line) \<Rightarrow> cursor_location \<Rightarrow> bool option" where
  "c_first_line ls c = map_option (\<lambda>l. line_prev (ls l) = None) (c_line c)"

definition c_eol :: "(lref \<Rightarrow> line) \<Rightarrow> cursor_location \<Rightarrow> bool option" where
  "c_eol ls c = map_option (\<lambda>l. c_boffset c = int (length (line_data (ls l)))) (c_line c)"

definition c_bol :: "cursor_location \<Rightarrow> bool" where
  "c_bol c = (c_boffset c = 0)"

definition move_cursor_forward :: "('ac, 'x) env \<Rightarrow> ('ac, 'x) world \<Rightarrow> ('ac, 'x) world option" where
  "move_cursor_forward E w =
     do {
       let c = cursor (view w);
       lastl \<leftarrow> c_last_line (lines w) c;
       at_end \<leftarrow> (if lastl then c_eol (lines w) c else Some False);
       if at_end then Some (set_status ''End of buffer'' w)
       else with_view (\<lambda>ls. move_cursor_to E ls (move_one_rune_forward E ls c)) w
     }"

definition move_cursor_backward :: "('ac, 'x) env \<Rightarrow> ('ac, 'x) world \<Rightarrow> ('ac, 'x) world option" where
  "move_cursor_backward E w =
     do {
       let c = cursor (view w);
       firstl \<leftarrow> c_first_line (lines w) c;
       if firstl \<and> c_bol c then Some (set_status ''Beginning of buffer'' w)
       else with_view (\<lambda>ls. move_cursor_to E ls (move_one_rune_backward E ls c)) w
     }"

definition move_cursor_next_line :: "('ac, 'x) env \<Rightarrow> ('ac, 'x) world \<Rightarrow> ('ac, 'x) world option" where
  "move_cursor_next_line E w =
     do {
       let c = cursor (view w);
       lastl \<leftarrow> c_last_line (lines w) c;
       l \<leftarrow> c_line c;
       if \<not> lastl then
         with_view (\<lambda>ls. move_cursor_to E ls
            \<lparr>c_line = line_next (lines w l), c_line_num = c_line_num c + 1, c_boffset = - 1\<rparr>) w
       else Some (set_status ''End of buffer'' w)
     }"

definition move_cursor_prev_line :: "('ac, 'x) env \<Rightarrow> ('ac, 'x) world \<Rightarrow> ('ac, 'x) world option" where
  "move_cursor_prev_line E w =
     do {
       let c = cursor (view w);
       firstl \<leftarrow> c_first_line (lines w) c;
       l \<leftarrow> c_line c;
       if \<not> firstl then
         with_view (\<lambda>ls. move_cursor_to E ls
            \<lparr>c_line = line_prev (lines w l), c_line_num = c_line_num c - 1, c_boffset = - 1\<rparr>) w
       else Some (set_status ''Beginning of buffer'' w)
     }"

definition move_cursor_beginning_of_line ::
  "('ac, 'x) env \<Rightarrow> ('ac, 'x) world \<Rightarrow> ('ac, 'x) world option" where
  "move_cursor_beginning_of_line E w =
     with_view (\<lambda>ls. move_cursor_to E ls (move_beginning_of_line E ls (cursor (view w)))) w"

definition move_cursor_end_of_line ::
  "('ac, 'x) env \<Rightarrow> ('ac, 'x) world \<Rightarrow> ('ac, 'x) world option" where
  "move_cursor_end_of_line E w =
     with_view (\<lambda>ls. move_cursor_to E ls (move_end_of_line E ls (cursor (view w)))) w"

definition move_cursor_beginning_of_file ::
  "('ac, 'x) env \<Rightarrow> ('ac, 'x) world \<Rightarrow> ('ac, 'x) world option" where
  "move_cursor_beginning_of_file E w =
     with_view (\<lambda>ls. move_cursor_to E ls
        \<lparr>c_line = first_line (buf w), c_line_num = 1, c_boffset = 0\<rparr>) w"

definition move_cursor_end_of_file ::
  "('ac, 'x) env \<Rightarrow> ('ac, 'x) world \<Rightarrow> ('ac, 'x) world option" where
  "move_cursor_end_of_file E w =
     (case last_line (buf w) of
        None \<Rightarrow> None
      | Some l \<Rightarrow>
          with_view (\<lambda>ls. move_cursor_to E ls
             \<lparr>c_line = last_line (buf w), c_line_num = lines_n (buf w),
               c_boffset = int (length (line_data (lines w l)))\<rparr>) w)"

definition move_cursor_word_forward ::
  "('ac, 'x) env \<Rightarrow> ('ac, 'x) world \<Rightarrow> ('ac, 'x) world option" where
  "move_cursor_word_forward E w =
     do {
       let (c, ok) = move_one_word_forward E (lines w) (cursor (view w));
       w1 \<leftarrow> with_view (\<lambda>ls. move_cursor_to E ls c) w;
       Some (if \<not> ok then set_status ''End of buffer'' w1 else w1)
     }"

definition move_cursor_word_backward ::
  "('ac, 'x) env \<Rightarrow> ('ac, 'x) world \<Rightarrow> ('ac, 'x) world option" where
  "move_cursor_word_backward E w =
     do {
       let (c, ok) = move_one_word_backward E (lines w) (cursor (view w));
       w1 \<leftarrow> with_view (\<lambda>ls. move_cursor_to E ls c) w;
       Some (if \<not> ok then set_status ''Beginning of buffer'' w1 else w1)
     }"

definition move_view_n_lines ::
  "('ac, 'x) env \<Rightarrow> int \<Rightarrow> ('ac, 'x) world \<Rightarrow> ('ac, 'x) world option" where
  "move_view_n_lines E n w =
     do {
       let prevtop = top_line_num (view w);
       w1 \<leftarrow> with_view (\<lambda>ls. move_top_line_n_times ls n) w;
       w2 \<leftarrow> with_view (adjust_cursor_line E) w1;
       Some (if prevtop \<noteq> top_line_num (view w2)
             then w2\<lparr>view := (view w2)\<lparr>dirty := dirty_everything\<rparr>\<rparr> else w2)
     }"

definition can_move_top_line_n_times :: "(lref \<Rightarrow> line) \<Rightarrow> int \<Rightarrow> 'ac view \<Rightarrow> bool option" where
  "can_move_top_line_n_times ls n v =
     (if n = 0 then Some True
      else case top_line v of
        None \<Rightarrow> None
      | Some topl \<Rightarrow>
          let (top1, num1, n1) = walk_prev ls topl (top_line_num v) n;
              (top2, num2, n2) = walk_next ls top1 num1 n1
          in Some (n2 = 0))"

definition maybe_move_view_n_lines ::
  "('ac, 'x) env \<Rightarrow> int \<Rightarrow> ('ac, 'x) world \<Rightarrow> ('ac, 'x) world option" where
  "maybe_move_view_n_lines E n w =
     do {
       can \<leftarrow> can_move_top_line_n_times (lines w) n (view w);
       if can then move_view_n_lines E n w else Some w
     }"

definition insert_rune :: "('ac, 'x) env \<Rightarrow> rune \<Rightarrow> ('ac, 'x) world \<Rightarrow> ('ac, 'x) world option" where
  "insert_rune E r w =
     do {
       let dat = EncodeRune r;
       let c = cursor (view w);
       w1 \<leftarrow> action_insert E c dat w;
       c1 \<leftarrow> (if r = 0x0A then
                (case c_line c of
                   None \<Rightarrow> None
                 | Some l \<Rightarrow> Some (c\<lparr>c_line := line_next (lines w1 l),
                                    c_line_num := c_line_num c + 1, c_boffset := 0\<rparr>))
              else Some (c\<lparr>c_boffset := c_boffset c + int (length dat)\<rparr>));
       w2 \<leftarrow> with_view (\<lambda>ls. move_cursor_to E ls c1) w1;
       Some (w2\<lparr>view := (view w2)\<lparr>dirty := dirty_everything\<rparr>\<rparr>)
     }"

definition set_dirty_everything :: "('ac, 'x) world \<Rightarrow> ('ac, 'x) world" where
  "set_dirty_everything w = w\<lparr>view := (view w)\<lparr>dirty := dirty_everything\<rparr>\<rparr>"

definition delete_rune_backward ::
  "('ac, 'x) env \<Rightarrow> ('ac, 'x) world \<Rightarrow> ('ac, 'x) world option" where
  "delete_rune_backward E w =
     (let c = cursor (view w)
      in if c_bol c then
           do {
             firstl \<leftarrow> c_first_line (lines w) c;
             if firstl then Some (set_status ''Beginning of buffer'' w)
             else do {
               l \<leftarrow> c_line c;
               p \<leftarrow> line_prev (lines w l);
               let c1 = c\<lparr>c_line := Some p, c_line_num := c_line_num c - 1,
                          c_boffset := int (length (line_data (lines w p)))\<rparr>;
               w1 \<leftarrow> action_delete E c1 1 w;
               w2 \<leftarrow> with_view (\<lambda>ls. move_cursor_to E ls c1) w1;
               Some (set_dirty_everything w2)
             }
           }
         else do {
           let rlen = snd (rune_before E (lines w) c);
           let c1 = c\<lparr>c_boffset := c_boffset c - rlen\<rparr>;
           w1 \<leftarrow> action_delete E c1 rlen w;
           w2 \<leftarrow> with_view (\<lambda>ls. move_cursor_to E ls c1) w1;
           Some (set_dirty_everything w2)
         })"

definition delete_rune :: "('ac, 'x) env \<Rightarrow> ('ac, 'x) world \<Rightarrow> ('ac, 'x) world option" where
  "delete_rune E w =
     do {
       let c = cursor (view w);
       at_eol \<leftarrow> c_eol (lines w) c;
       if at_eol then do {
         lastl \<leftarrow> c_last_line (lines w) c;
         if lastl then Some (set_status ''End of buffer'' w)
         else map_option set_dirty_everything (action_delete E c 1 w)
       }
       else map_option set_dirty_everything
              (action_delete E c (snd (rune_under E (lines w) c)) w)
     }"

definition kill_line :: "('ac, 'x) env \<Rightarrow> ('ac, 'x) world \<Rightarrow> ('ac, 'x) world option" where
  "kill_line E w =
     do {
       let c = cursor (view w);
       at_eol \<leftarrow> c_eol (lines w) c;
       if \<not> at_eol then do {
         l \<leftarrow> c_line c;
         map_option set_dirty_everything
           (action_delete E c (int (length (line_data (lines w l))) - c_boffset c) w)
       }
       else delete_rune E w
     }"

definition kill_word :: "('ac, 'x) env \<Rightarrow> ('ac, 'x) world \<Rightarrow> ('ac, 'x) world option" where
  "kill_word E w =
     (let c1 = cursor (view w);
          c2 = fst (move_one_word_forward E (lines w) c1);
          d = distance E (lines w) c1 c2
      in if d > 0 then action_delete E c1 d w else Some w)"

definition is_mark_set :: "buffer \<Rightarrow> bool" where
  "is_mark_set b = (c_line (mark b) \<noteq> None)"

definition kill_region :: "('ac, 'x) env \<Rightarrow> ('ac, 'x) world \<Rightarrow> ('ac, 'x) world option" where
  "kill_region E w =
     (if \<not> is_mark_set (buf w)
      then Some (set_status ''The mark is not set now, so there is no region'' w)
      else
        let c1 = cursor (view w);
            c2 = mark (buf w);
            d = distance E (lines w) c1 c2
        in if d = 0 then Some w
           else if d < 0 then do {
             w1 \<leftarrow> action_delete E c2 (- d) w;
             with_view (\<lambda>ls. move_cursor_to E ls c2) w1
           }
           else action_delete E c1 d w)"

definition set_mark :: "('ac, 'x) world \<Rightarrow> ('ac, 'x) world" where
  "set_mark w = set_status ''Mark set'' (w\<lparr>buf := (buf w)\<lparr>mark := cursor (view w)\<rparr>\<rparr>)"

definition swap_cursor_and_mark ::
  "('ac, 'x) env \<Rightarrow> ('ac, 'x) world \<Rightarrow> ('ac, 'x) world option" where
  "swap_cursor_and_mark E w =
     (if is_mark_set (buf w) then
        let m = mark (buf w);
            w1 = w\<lparr>buf := (buf w)\<lparr>mark := cursor (view w)\<rparr>\<rparr>
        in with_view (\<lambda>ls. move_cursor_to E ls m) w1
      else Some w)"

definition init_autocompl :: "('ac, 'x) env \<Rightarrow> ('ac, 'x) world \<Rightarrow> ('ac, 'x) world" where
  "init_autocompl E w = w\<lparr>view := (view w)\<lparr>ac := new_autocompl E w\<rparr>\<rparr>"


subsection \<open>view.go: view commands and their classes\<close>

text \<open>
  \<open>vcommand\<close> and \<open>vcommand_class\<close> are integer types; the commands are the values of
  \<open>iota\<close> in the order of the declaration, with a pair of markers around each class.
\<close>

type_synonym vcommand = int

definition vcommand_movement_beg :: vcommand where "vcommand_movement_beg = 0"
definition vcommand_move_cursor_forward :: vcommand where "vcommand_move_cursor_forward = 1"
definition vcommand_move_cursor_backward :: vcommand where "vcommand_move_cursor_backward = 2"
definition vcommand_move_cursor_word_forward :: vcommand where "vcommand_move_cursor_word_forward = 3"
definition vcommand_move_cursor_word_backward :: vcommand where "vcommand_move_cursor_word_backward = 4"
definition vcommand_move_cursor_next_line :: vcommand where "vcommand_move_cursor_next_line = 5"
definition vcommand_move_cursor_prev_line :: vcommand where "vcommand_move_cursor_prev_line = 6"
definition vcommand_move_cursor_beginning_of_line :: vcommand where "vcommand_move_cursor_beginning_of_line = 7"
definition vcommand_move_cursor_end_of_line :: vcommand where "vcommand_move_cursor_end_of_line = 8"
definition vcommand_move_cursor_beginning_of_file :: vcommand where "vcommand_move_cursor_beginning_of_file = 9"
definition vcommand_move_cursor_end_of_file :: vcommand where "vcommand_move_cursor_end_of_file = 10"
definition vcommand_move_view_half_forward :: vcommand where "vcommand_move_view_half_forward = 11"
definition vcommand_move_view_half_backward :: vcommand where "vcommand_move_view_half_backward = 12"
definition vcommand_set_mark :: vcommand where "vcommand_set_mark = 13"
definition vcommand_swap_cursor_and_mark :: vcommand where "vcommand_swap_cursor_and_mark = 14"
definition vcommand_movement_end :: vcommand where "vcommand_movement_end = 15"
definition vcommand_insertion_beg :: vcommand where "vcommand_insertion_beg = 16"
definition vcommand_insert_rune :: vcommand where "vcommand_insert_rune = 17"
definition vcommand_insertion_end :: vcommand where "vcommand_insertion_end = 18"
definition vcommand_deletion_beg :: vcommand where "vcommand_deletion_beg = 19"
definition vcommand_delete_rune_backward :: vcommand where "vcommand_delete_rune_backward = 20"
definition vcommand_delete_rune :: vcommand where "vcommand_delete_rune = 21"
definition vcommand_kill_line :: vcommand where "vcommand_kill_line = 22"
definition vcommand_kill_word :: vcommand where "vcommand_kill_word = 23"
definition vcommand_kill_region :: vcommand where "vcommand_kill_region = 24"
definition vcommand_deletion_end :: vcommand where "vcommand_deletion_end = 25"
definition vcommand_history_beg :: vcommand where "vcommand_history_beg = 26"
definition vcommand_undo :: vcommand where "vcommand_undo = 27"
definition vcommand_redo :: vcommand where "vcommand_redo = 28"
definition vcommand_history_end :: vcommand where "vcommand_history_end = 29"
definition vcommand_misc_beg :: vcommand where "vcommand_misc_beg = 30"
definition vcommand_autocompl_init :: vcommand where "vcommand_autocompl_init = 31"
definition vcommand_autocompl_move_cursor_up :: vcommand where "vcommand_autocompl_move_cursor_up = 32"
definition vcommand_autocompl_move_cursor_down :: vcommand where "vcommand_autocompl_move_cursor_down = 33"
definition vcommand_autocompl_finalize :: vcommand where "vcommand_autocompl_finalize = 34"
definition vcommand_misc_end :: vcommand where "vcommand_misc_end = 35"

definition vcommand_class_of :: "vcommand \<Rightarrow> vcommand_class" where
  "vcommand_class_of c =
     (if c > vcommand_movement_beg \<and> c < vcommand_movement_end then vcommand_class_movement
      else if c > vcommand_insertion_beg \<and> c < vcommand_insertion_end then vcommand_class_insertion
      else if c > vcommand_deletion_beg \<and> c < vcommand_deletion_end then vcommand_class_deletion
      else if c > vcommand_history_beg \<and> c < vcommand_history_end then vcommand_class_history
      else if c > vcommand_misc_beg \<and> c < vcommand_misc_end then vcommand_class_misc
      else vcommand_class_none)"

text \<open>The \<open>switch\<close> of \<open>on_vcommand\<close>: the command is run on the world.\<close>

definition run_vcommand ::
  "('ac, 'x) env \<Rightarrow> vcommand \<Rightarrow> rune \<Rightarrow> ('ac, 'x) world \<Rightarrow> ('ac, 'x) world option" where
  "run_vcommand E cmd arg w =
     (if cmd = vcommand_move_cursor_forward then move_cursor_forward E w
      else if cmd = vcommand_move_cursor_backward then move_cursor_backward E w
      else if cmd = vcommand_move_cursor_word_forward then move_cursor_word_forward E w
      else if cmd = vcommand_move_cursor_word_backward then move_cursor_word_backward E w
      else if cmd = vcommand_move_cursor_next_line then move_cursor_next_line E w
      else if cmd = vcommand_move_cursor_prev_line then move_cursor_prev_line E w
      else if cmd = vcommand_move_cursor_beginning_of_line then move_cursor_beginning_of_line E w
      else if cmd = vcommand_move_cursor_end_of_line then move_cursor_end_of_line E w
      else if cmd = vcommand_move_cursor_beginning_of_file then move_cursor_beginning_of_file E w
      else if cmd = vcommand_move_cursor_end_of_file then move_cursor_end_of_file E w
      else if cmd = vcommand_move_view_half_forward
        then maybe_move_view_n_lines E (height (view w) sdiv 2) w
      else if cmd = vcommand_move_view_half_backward
        then move_view_n_lines E ((- height (view w)) sdiv 2) w
      else if cmd = vcommand_set_mark then Some (set_mark w)
      else if cmd = vcommand_swap_cursor_and_mark then swap_cursor_and_mark E w
      else if cmd = vcommand_insert_rune then insert_rune E arg w
      else if cmd = vcommand_delete_rune_backward then delete_rune_backward E w
      else if cmd = vcommand_delete_rune then delete_rune E w
      else if cmd = vcommand_kill_line then kill_line E w
      else if cmd = vcommand_kill_word then kill_word E w
      else if cmd = vcommand_kill_region then kill_region E w
      else if cmd = vcommand_undo then undo E w
      else if cmd = vcommand_redo then redo E w
      else if cmd = vcommand_autocompl_init then Some (init_autocompl E w)
      else if cmd = vcommand_autocompl_finalize then
        (case ac (view w) of
           None \<Rightarrow> None
         | Some a \<Rightarrow>
             let w1 = autocompl_finalize E a w
             in Some (w1\<lparr>view := (view w1)\<lparr>ac := None\<rparr>\<rparr>))
      else if cmd = vcommand_autocompl_move_cursor_up then
        (case ac (view w) of
           None \<Rightarrow> None
         | Some a \<Rightarrow> Some (w\<lparr>view := (view w)\<lparr>ac := Some (autocompl_move_cursor_up E a)\<rparr>\<rparr>))
      else if cmd = vcommand_autocompl_move_cursor_down then
        (case ac (view w) of
           None \<Rightarrow> None
         | Some a \<Rightarrow> Some (w\<lparr>view := (view w)\<lparr>ac := Some (autocompl_move_cursor_down E a)\<rparr>\<rparr>))
      else Some w)"

definition on_vcommand ::
  "('ac, 'x) env \<Rightarrow> vcommand \<Rightarrow> rune \<Rightarrow> ('ac, 'x) world \<Rightarrow> ('ac, 'x) world option" where
  "on_vcommand E cmd arg w =
     do {
       let cls = vcommand_class_of cmd;
       w1 \<leftarrow> (if cls \<noteq> last_vcommand_class (view w)
              then finalize_action_group (w\<lparr>view := (view w)\<lparr>last_vcommand_class := cls\<rparr>\<rparr>)
              else Some w);
       run_vcommand E cmd arg w1
     }"

section \<open>An instance of the parameters\<close>

text \<open>
  Modelled from the spec: the methods of \<open>cursor_location\<close>, \<open>action\<close> and
  \<open>action_group\<close> that the two files call and do not define, and the three
  constants. Only what sections 4.2 to 4.4 and 8 of the specification say about them
  is modelled; the buffer of this instance has no other view and no autocompletion.
\<close>

text \<open>
  Modelled from the spec: \<open>cursor_location.voffset_coffset\<close>, "computes
  character-offset and visual-offset given only a byte offset (forward walk from line
  start)".
\<close>

function voffset_coffset_walk ::
  "int \<Rightarrow> int \<Rightarrow> byte list \<Rightarrow> int \<times> int \<times> int \<Rightarrow> int \<times> int" where
  "voffset_coffset_walk ts boffset dat (bo, co, vo) =
     (if dat = [] \<or> boffset \<le> bo then (vo, co)
      else
        let r = fst (DecodeRune dat);
            rlen = snd (DecodeRune dat);
            vodif = (if r = 9 then ts - vo smod ts else 1)
        in voffset_coffset_walk ts boffset (drop rlen dat) (bo + int rlen, co + 1, vo + vodif))"
  by pat_completeness auto
termination
  by (relation "measure (\<lambda>(ts, boffset, dat, acc). length dat)") (auto simp: DecodeRune_drop)

declare voffset_coffset_walk.simps [simp del]

definition spec_voffset_coffset :: "int \<Rightarrow> (lref \<Rightarrow> line) \<Rightarrow> cursor_location \<Rightarrow> int \<times> int" where
  "spec_voffset_coffset ts ls c =
     (case c_line c of
        None \<Rightarrow> (0, 0)
      | Some l \<Rightarrow> voffset_coffset_walk ts (c_boffset c) (line_data (ls l)) (0, 0, 0))"

text \<open>
  Modelled from the spec: \<open>action.deleted_lines\<close>. A delete action unlinks the
  \<open>len(a.lines)\<close> lines that follow the line of its cursor (\<open>action_delete\<close> collects
  them so): their numbers run from the cursor's line number plus one.
\<close>

definition spec_deleted_lines :: "action \<Rightarrow> int \<times> int" where
  "spec_deleted_lines a =
     (c_line_num (a_cursor a) + 1, c_line_num (a_cursor a) + int (length (a_lines a)))"

text \<open>
  Modelled from the spec: \<open>cursor_location.on_insert_adjust\<close> and \<open>on_delete_adjust\<close>,
  "shift byte offset by inserted/removed byte counts when on the same line, shift line
  number when whole lines are added/removed before it". A cursor on a removed line
  goes to the cursor of the action.
\<close>

definition bytes_after_last_newline :: "byte list \<Rightarrow> byte list" where
  "bytes_after_last_newline dat = rev (takeWhile (\<lambda>b. b \<noteq> 0x0A) (rev dat))"

definition spec_on_insert_adjust ::
  "(lref \<Rightarrow> line) \<Rightarrow> cursor_location \<Rightarrow> action \<Rightarrow> cursor_location" where
  "spec_on_insert_adjust ls c a =
     (let ac = a_cursor a; n = int (length (a_lines a))
      in if c_line_num ac > c_line_num c then c
         else if c_line_num ac < c_line_num c then c\<lparr>c_line_num := c_line_num c + n\<rparr>
         else if c_boffset c < c_boffset ac then c
         else if n = 0 then c\<lparr>c_boffset := c_boffset c + int (length (a_data a))\<rparr>
         else c\<lparr>c_line := last (a_lines a), c_line_num := c_line_num c + n,
                c_boffset := c_boffset c - c_boffset ac
                  + int (length (bytes_after_last_newline (a_data a)))\<rparr>)"

definition spec_on_delete_adjust ::
  "(lref \<Rightarrow> line) \<Rightarrow> cursor_location \<Rightarrow> action \<Rightarrow> cursor_location" where
  "spec_on_delete_adjust ls c a =
     (let ac = a_cursor a; n = int (length (a_lines a))
      in if c_line_num ac > c_line_num c then c
         else if c_line_num ac < c_line_num c then
           (if c_line_num c \<le> c_line_num ac + n then ac
            else c\<lparr>c_line_num := c_line_num c - n\<rparr>)
         else if c_boffset c \<le> c_boffset ac then c
         else c\<lparr>c_boffset := max (c_boffset ac) (c_boffset c - int (length (a_data a)))\<rparr>)"

text \<open>
  Modelled from the spec: the one-rune and line motions of \<open>cursor_location\<close>,
  "treating the line separator as a single logical character", and \<open>rune_under\<close>,
  \<open>rune_before\<close>.
\<close>

definition cursor_data :: "(lref \<Rightarrow> line) \<Rightarrow> cursor_location \<Rightarrow> byte list" where
  "cursor_data ls c = (case c_line c of None \<Rightarrow> [] | Some l \<Rightarrow> line_data (ls l))"

definition spec_rune_under :: "(lref \<Rightarrow> line) \<Rightarrow> cursor_location \<Rightarrow> rune \<times> int" where
  "spec_rune_under ls c =
     (let p = DecodeRune (drop (nat (c_boffset c)) (cursor_data ls c)) in (fst p, int (snd p)))"

definition spec_rune_before :: "(lref \<Rightarrow> line) \<Rightarrow> cursor_location \<Rightarrow> rune \<times> int" where
  "spec_rune_before ls c =
     (case runes (take (nat (c_boffset c)) (cursor_data ls c)) of
        [] \<Rightarrow> (RuneError, 0)
      | r # rs \<Rightarrow> (fst (last (r # rs)), int (snd (last (r # rs)))))"

definition at_eol :: "(lref \<Rightarrow> line) \<Rightarrow> cursor_location \<Rightarrow> bool" where
  "at_eol ls c = (int (length (cursor_data ls c)) \<le> c_boffset c)"

definition spec_move_one_rune_forward ::
  "(lref \<Rightarrow> line) \<Rightarrow> cursor_location \<Rightarrow> cursor_location" where
  "spec_move_one_rune_forward ls c =
     (case c_line c of
        None \<Rightarrow> c
      | Some l \<Rightarrow>
          if at_eol ls c then
            (case line_next (ls l) of
               None \<Rightarrow> c
             | Some n \<Rightarrow> \<lparr>c_line = Some n, c_line_num = c_line_num c + 1, c_boffset = 0\<rparr>)
          else c\<lparr>c_boffset := c_boffset c + snd (spec_rune_under ls c)\<rparr>)"

definition spec_move_one_rune_backward ::
  "(lref \<Rightarrow> line) \<Rightarrow> cursor_location \<Rightarrow> cursor_location" where
  "spec_move_one_rune_backward ls c =
     (case c_line c of
        None \<Rightarrow> c
      | Some l \<Rightarrow>
          if c_boffset c \<le> 0 then
            (case line_prev (ls l) of
               None \<Rightarrow> c
             | Some p \<Rightarrow> \<lparr>c_line = Some p, c_line_num = c_line_num c - 1,
                          c_boffset = int (length (line_data (ls p)))\<rparr>)
          else c\<lparr>c_boffset := c_boffset c - snd (spec_rune_before ls c)\<rparr>)"

definition spec_move_beginning_of_line ::
  "(lref \<Rightarrow> line) \<Rightarrow> cursor_location \<Rightarrow> cursor_location" where
  "spec_move_beginning_of_line ls c = c\<lparr>c_boffset := 0\<rparr>"

definition spec_move_end_of_line ::
  "(lref \<Rightarrow> line) \<Rightarrow> cursor_location \<Rightarrow> cursor_location" where
  "spec_move_end_of_line ls c = c\<lparr>c_boffset := int (length (cursor_data ls c))\<rparr>"

text \<open>
  Modelled from the spec: the word motions of \<open>cursor_location\<close>. Characters are
  "word" (ASCII letters, digits and the underscore) or "non-word". The forward motion
  moves past the run of non-word characters, across lines, and then past the run of
  word characters, to "the end of the next (or current) word"; the backward motion is
  its mirror image. When there is no word left before the buffer boundary the motion
  reports it (\<open>False\<close>) and "does not move the cursor". The forward motion "when
  already on the last word of the last line returns a boundary signal and leaves the
  cursor unmoved" (section 8): the cursor is on the last word of the last line
  (\<open>on_last_word\<close>) when its line is the last one and no word begins after the cursor,
  that is, what follows the cursor is the rest of a word, if any, and then non-word
  characters only. The search across lines is a walk of the store: it is \<open>None\<close> when
  the walk does not end.
\<close>

definition is_word :: "rune \<Rightarrow> bool" where
  "is_word r = ((0x30 \<le> r \<and> r \<le> 0x39) \<or> (0x41 \<le> r \<and> r \<le> 0x5A) \<or> r = 0x5F \<or>
                (0x61 \<le> r \<and> r \<le> 0x7A))"

definition run_bytes :: "(rune \<Rightarrow> bool) \<Rightarrow> (rune \<times> nat) list \<Rightarrow> int" where
  "run_bytes P rs = int (sum_list (map snd (takeWhile (\<lambda>x. P (fst x)) rs)))"

partial_function (option) next_word_start ::
  "(lref \<Rightarrow> line) \<Rightarrow> cursor_location \<Rightarrow> (cursor_location \<times> bool) option" where
  "next_word_start ls c =
     (case c_line c of
        None \<Rightarrow> Some (c, False)
      | Some l \<Rightarrow>
          let c1 = c\<lparr>c_boffset := c_boffset c
                     + run_bytes (\<lambda>r. \<not> is_word r)
                         (runes (drop (nat (c_boffset c)) (line_data (ls l))))\<rparr>
          in if \<not> at_eol ls c1 then Some (c1, True)
             else (case line_next (ls l) of
                     None \<Rightarrow> Some (c1, False)
                   | Some n \<Rightarrow> next_word_start ls
                                \<lparr>c_line = Some n, c_line_num = c_line_num c + 1, c_boffset = 0\<rparr>))"

partial_function (option) prev_word_end ::
  "(lref \<Rightarrow> line) \<Rightarrow> cursor_location \<Rightarrow> (cursor_location \<times> bool) option" where
  "prev_word_end ls c =
     (case c_line c of
        None \<Rightarrow> Some (c, False)
      | Some l \<Rightarrow>
          let c1 = c\<lparr>c_boffset := c_boffset c
                     - run_bytes (\<lambda>r. \<not> is_word r)
                         (rev (runes (take (nat (c_boffset c)) (line_data (ls l)))))\<rparr>
          in if 0 < c_boffset c1 then Some (c1, True)
             else (case line_prev (ls l) of
                     None \<Rightarrow> Some (c1, False)
                   | Some p \<Rightarrow> prev_word_end ls
                                \<lparr>c_line = Some p, c_line_num = c_line_num c - 1,
                                  c_boffset = int (length (line_data (ls p)))\<rparr>))"

declare next_word_start.simps [code]
declare prev_word_end.simps [code]

definition on_last_word :: "(lref \<Rightarrow> line) \<Rightarrow> cursor_location \<Rightarrow> bool" where
  "on_last_word ls c =
     (case c_line c of
        None \<Rightarrow> False
      | Some l \<Rightarrow>
          line_next (ls l) = None \<and>
          list_all (\<lambda>x. \<not> is_word (fst x))
            (dropWhile (\<lambda>x. is_word (fst x))
               (runes (drop (nat (c_boffset c)) (line_data (ls l))))))"

definition spec_move_one_word_forward ::
  "(lref \<Rightarrow> line) \<Rightarrow> cursor_location \<Rightarrow> cursor_location \<times> bool" where
  "spec_move_one_word_forward ls c =
     (if on_last_word ls c then (c, False)
      else case next_word_start ls c of
        Some (c1, True) \<Rightarrow>
          (c1\<lparr>c_boffset := c_boffset c1
                 + run_bytes is_word (runes (drop (nat (c_boffset c1)) (cursor_data ls c1)))\<rparr>,
           True)
      | _ \<Rightarrow> (c, False))"

definition spec_move_one_word_backward ::
  "(lref \<Rightarrow> line) \<Rightarrow> cursor_location \<Rightarrow> cursor_location \<times> bool" where
  "spec_move_one_word_backward ls c =
     (case prev_word_end ls c of
        Some (c1, True) \<Rightarrow>
          (c1\<lparr>c_boffset := c_boffset c1
                 - run_bytes is_word (rev (runes (take (nat (c_boffset c1)) (cursor_data ls c1))))\<rparr>,
           True)
      | _ \<Rightarrow> (c, False))"

text \<open>
  Modelled from the spec: \<open>cursor_location.extract_bytes\<close> (the "exact byte payload"
  a delete removes: the bytes from the cursor on, a newline for every line boundary)
  and \<open>cursor_location.distance\<close> (the number of bytes from one cursor to another,
  negative when the other cursor comes first).
\<close>

fun extract_from :: "(lref \<Rightarrow> line) \<Rightarrow> lref option \<Rightarrow> nat \<Rightarrow> nat \<Rightarrow> byte list" where
  "extract_from ls l off 0 = []"
| "extract_from ls l off (Suc k) =
     (case l of
        None \<Rightarrow> []
      | Some x \<Rightarrow>
          if off < length (line_data (ls x))
          then line_data (ls x) ! off # extract_from ls l (Suc off) k
          else (case line_next (ls x) of
                  None \<Rightarrow> []
                | Some y \<Rightarrow> 0x0A # extract_from ls (Some y) 0 k))"

definition spec_extract_bytes :: "(lref \<Rightarrow> line) \<Rightarrow> cursor_location \<Rightarrow> int \<Rightarrow> byte list" where
  "spec_extract_bytes ls c nbytes = extract_from ls (c_line c) (nat (c_boffset c)) (nat nbytes)"

fun bytes_to_line :: "(lref \<Rightarrow> line) \<Rightarrow> lref option \<Rightarrow> nat \<Rightarrow> int" where
  "bytes_to_line ls l 0 = 0"
| "bytes_to_line ls l (Suc k) =
     (case l of
        None \<Rightarrow> 0
      | Some x \<Rightarrow> int (length (line_data (ls x))) + 1 + bytes_to_line ls (line_next (ls x)) k)"

definition forward_distance :: "(lref \<Rightarrow> line) \<Rightarrow> cursor_location \<Rightarrow> cursor_location \<Rightarrow> int" where
  "forward_distance ls c1 c2 =
     bytes_to_line ls (c_line c1) (nat (c_line_num c2 - c_line_num c1))
       - c_boffset c1 + c_boffset c2"

definition spec_distance :: "(lref \<Rightarrow> line) \<Rightarrow> cursor_location \<Rightarrow> cursor_location \<Rightarrow> int" where
  "spec_distance ls c1 c2 =
     (if c_line_num c1 \<le> c_line_num c2 then forward_distance ls c1 c2
      else - forward_distance ls c2 c1)"


text \<open>
  Modelled from the spec: \<open>action.apply\<close>, \<open>action.revert\<close> and \<open>action_group.append\<close>
  (section 4.3). An insert "splits the content at the action's cursor byte offset" and
  splices in the line nodes of the action, "one per embedded separator in the
  payload"; a delete removes the bytes of the payload from the cursor on, "merging/
  unlinking Line nodes as needed"; the revert of the one is the other, with the same
  payload and the same nodes. The byte and line counters follow. A group is an
  "ordered sequence of Actions": \<open>append\<close> adds the action at its end.
\<close>

fun insert_loop ::
  "byte list \<Rightarrow> lref option list \<Rightarrow> lref \<Rightarrow> nat \<Rightarrow> ('ac, 'x) world \<Rightarrow> ('ac, 'x) world" where
  "insert_loop [] ns l off w = w"
| "insert_loop (b # bs) ns l off w =
     (let d = line_data (lines w l)
      in if b = 0x0A then
           (case ns of
              Some n # ns' \<Rightarrow>
                let nx = line_next (lines w l);
                    w1 = set_line n (\<lambda>x. \<lparr>line_data = drop off d, line_next = nx,
                                            line_prev = Some l\<rparr>) w;
                    w2 = (case nx of
                            None \<Rightarrow> w1\<lparr>buf := (buf w1)\<lparr>last_line := Some n\<rparr>\<rparr>
                          | Some y \<Rightarrow> set_line y (\<lambda>x. x\<lparr>line_prev := Some n\<rparr>) w1);
                    w3 = set_line l (\<lambda>x. x\<lparr>line_data := take off d, line_next := Some n\<rparr>) w2;
                    w4 = w3\<lparr>buf := (buf w3)\<lparr>lines_n := lines_n (buf w3) + 1,
                                            bytes_n := bytes_n (buf w3) + 1\<rparr>\<rparr>
                in insert_loop bs ns' n 0 w4
            | _ \<Rightarrow> w)
         else
           let w1 = set_line l (\<lambda>x. x\<lparr>line_data := take off d @ b # drop off d\<rparr>) w;
               w2 = w1\<lparr>buf := (buf w1)\<lparr>bytes_n := bytes_n (buf w1) + 1\<rparr>\<rparr>
           in insert_loop bs ns l (Suc off) w2)"

fun delete_loop :: "byte list \<Rightarrow> lref \<Rightarrow> nat \<Rightarrow> ('ac, 'x) world \<Rightarrow> ('ac, 'x) world" where
  "delete_loop [] l off w = w"
| "delete_loop (b # bs) l off w =
     (let d = line_data (lines w l)
      in if b = 0x0A then
           (case line_next (lines w l) of
              None \<Rightarrow> w
            | Some n \<Rightarrow>
                let nx = line_next (lines w n);
                    w1 = set_line l (\<lambda>x. x\<lparr>line_data := take off d @ line_data (lines w n),
                                            line_next := nx\<rparr>) w;
                    w2 = (case nx of
                            None \<Rightarrow> w1\<lparr>buf := (buf w1)\<lparr>last_line := Some l\<rparr>\<rparr>
                          | Some y \<Rightarrow> set_line y (\<lambda>x. x\<lparr>line_prev := Some l\<rparr>) w1);
                    w3 = w2\<lparr>buf := (buf w2)\<lparr>lines_n := lines_n (buf w2) - 1,
                                            bytes_n := bytes_n (buf w2) - 1\<rparr>\<rparr>
                in delete_loop bs l off w3)
         else
           let w1 = set_line l (\<lambda>x. x\<lparr>line_data := take off d @ drop (Suc off) d\<rparr>) w;
               w2 = w1\<lparr>buf := (buf w1)\<lparr>bytes_n := bytes_n (buf w1) - 1\<rparr>\<rparr>
           in delete_loop bs l off w2)"

definition spec_insert :: "action \<Rightarrow> ('ac, 'x) world \<Rightarrow> ('ac, 'x) world" where
  "spec_insert a w =
     (case c_line (a_cursor a) of
        None \<Rightarrow> w
      | Some l \<Rightarrow> insert_loop (a_data a) (a_lines a) l (nat (c_boffset (a_cursor a))) w)"

definition spec_delete :: "action \<Rightarrow> ('ac, 'x) world \<Rightarrow> ('ac, 'x) world" where
  "spec_delete a w =
     (case c_line (a_cursor a) of
        None \<Rightarrow> w
      | Some l \<Rightarrow> delete_loop (a_data a) l (nat (c_boffset (a_cursor a))) w)"

definition spec_apply :: "action \<Rightarrow> ('ac, 'x) world \<Rightarrow> ('ac, 'x) world" where
  "spec_apply a w = (if a_what a = action_type_insert then spec_insert a w else spec_delete a w)"

definition spec_revert :: "action \<Rightarrow> ('ac, 'x) world \<Rightarrow> ('ac, 'x) world" where
  "spec_revert a w = (if a_what a = action_type_insert then spec_delete a w else spec_insert a w)"

definition spec_env :: "(unit, unit) env" where
  "spec_env =
     \<lparr>tabstop_length = 8,
      view_vertical_threshold = 5,
      view_horizontal_threshold = 10,
      voffset_coffset = spec_voffset_coffset 8,
      move_one_rune_forward = spec_move_one_rune_forward,
      move_one_rune_backward = spec_move_one_rune_backward,
      move_beginning_of_line = spec_move_beginning_of_line,
      move_end_of_line = spec_move_end_of_line,
      move_one_word_forward = spec_move_one_word_forward,
      move_one_word_backward = spec_move_one_word_backward,
      rune_before = spec_rune_before,
      rune_under = spec_rune_under,
      extract_bytes = spec_extract_bytes,
      distance = spec_distance,
      on_insert_adjust = spec_on_insert_adjust,
      on_delete_adjust = spec_on_delete_adjust,
      deleted_lines = spec_deleted_lines,
      action_apply = spec_apply,
      action_revert = spec_revert,
      group_append = (\<lambda>as a. as @ [a]),
      new_autocompl = (\<lambda>w. None),
      autocompl_update = (\<lambda>a c. (a, True)),
      autocompl_finalize = (\<lambda>a w. w),
      autocompl_move_cursor_up = (\<lambda>a. a),
      autocompl_move_cursor_down = (\<lambda>a. a)\<rparr>"

text \<open>An empty buffer (\<open>new_buffer\<close>) in an empty store, and a view attached to it.\<close>

definition empty_store :: store where
  "empty_store = \<lparr>lines = (\<lambda>_. zero_line), lines_new = 0,
     groups = (\<lambda>_. zero_group), groups_new = 0\<rparr>"

definition new_buffer :: "'a store_scheme \<Rightarrow> 'a store_scheme \<times> buffer" where
  "new_buffer s =
     (let (l, s1) = new_line s;
          s2 = set_line l (\<lambda>x. x\<lparr>line_next := None, line_prev := None\<rparr>) s1;
          b = zero_buffer\<lparr>first_line := Some l, last_line := Some l,
                loc := (loc zero_buffer)\<lparr>top_line := Some l, top_line_num := 1,
                  cursor := \<lparr>c_line = Some l, c_line_num = 1, c_boffset = 0\<rparr>\<rparr>\<rparr>
      in init_history s2 b)"

definition attach_view :: "int \<Rightarrow> int \<Rightarrow> store \<times> buffer \<Rightarrow> (unit, unit) world" where
  "attach_view w h sb =
     \<lparr>lines = lines (fst sb), lines_new = lines_new (fst sb),
      groups = groups (fst sb), groups_new = groups_new (fst sb),
      buf = snd sb,
      view = \<lparr>cursor = cursor (loc (snd sb)), top_line = top_line (loc (snd sb)),
               top_line_num = top_line_num (loc (snd sb)),
               cursor_coffset = cursor_coffset (loc (snd sb)),
               cursor_voffset = cursor_voffset (loc (snd sb)),
               line_voffset = line_voffset (loc (snd sb)),
               last_cursor_voffset = last_cursor_voffset (loc (snd sb)),
               uibuf_Width = w, uibuf_Height = h, dirty = dirty_everything,
               oneline = False, ac = None, last_vcommand_class = vcommand_class_none\<rparr>,
      others = (), sr = []\<rparr>"

definition world0 :: "(unit, unit) world" where
  "world0 = attach_view 80 21 (new_buffer empty_store)"

section \<open>Claim C8: the closest offsets for a visual column\<close>

text \<open>
  The reading of the specification (section 4.2), to compare with the loop: the line is a
  sequence of characters (\<open>runes\<close>, each with its length in bytes), a tab moves the
  visual offset to the next multiple of the tab-stop width and any other character
  costs one cell (\<open>visual_step\<close>); \<open>visual_width\<close> and \<open>byte_width\<close> are the visual
  and byte offsets after a prefix of the characters.
\<close>

definition visual_step :: "int \<Rightarrow> int \<Rightarrow> rune \<Rightarrow> int" where
  "visual_step ts vo r = (if r = 9 then (vo div ts + 1) * ts else vo + 1)"

definition visual_width :: "int \<Rightarrow> int \<Rightarrow> (rune \<times> nat) list \<Rightarrow> int" where
  "visual_width ts vo rs = foldl (visual_step ts) vo (map fst rs)"

definition byte_width :: "(rune \<times> nat) list \<Rightarrow> int" where
  "byte_width rs = sum_list (map (int \<circ> snd) rs)"

lemma smod_nonneg: "0 \<le> (a::int) \<Longrightarrow> 0 < b \<Longrightarrow> a smod b = a mod b"
  by (simp add: smod_int_alt_def sgn_if)

lemma visual_step_tab:
  assumes "0 < (ts::int)" "0 \<le> vo"
  shows "vo + (ts - vo smod ts) = (vo div ts + 1) * ts"
proof -
  have "vo = vo div ts * ts + vo mod ts"
    by simp
  then have "vo + (ts - vo mod ts) = (vo div ts + 1) * ts"
    by (simp add: algebra_simps)
  then show ?thesis
    using assms by (simp add: smod_nonneg)
qed

lemma visual_step_gt:
  assumes "0 < ts"
  shows "vo < visual_step ts vo r"
proof -
  have "vo = vo div ts * ts + vo mod ts"
    by simp
  moreover have "vo mod ts < ts"
    using assms by simp
  ultimately have "vo < (vo div ts + 1) * ts"
    by (smt (verit) distrib_right mult_cancel_right2)
  then show ?thesis
    by (simp add: visual_step_def)
qed


lemma visual_width_ge: "0 < ts \<Longrightarrow> vo \<le> visual_width ts vo rs"
proof (induction rs arbitrary: vo)
  case Nil
  then show ?case by (simp add: visual_width_def)
next
  case (Cons r rs)
  have "vo < visual_step ts vo (fst r)"
    using Cons.prems by (rule visual_step_gt)
  moreover have "visual_step ts vo (fst r) \<le> visual_width ts (visual_step ts vo (fst r)) rs"
    using Cons.prems by (rule Cons.IH)
  ultimately show ?case
    by (simp add: visual_width_def)
qed

lemma visual_width_append:
  "visual_width ts vo (xs @ ys) = visual_width ts (visual_width ts vo xs) ys"
  by (simp add: visual_width_def)

lemma visual_width_take_mono:
  assumes "0 < ts" "j \<le> k"
  shows "visual_width ts vo (take j rs) \<le> visual_width ts vo (take k rs)"
proof -
  have "take k rs = take j rs @ take (k - j) (drop j rs)"
    using assms(2) by (metis le_add_diff_inverse take_add)
  then show ?thesis
    using assms(1) by (simp add: visual_width_append visual_width_ge)
qed

lemma find_closest_offsets_loop_prefix:
  assumes "0 < ts" "0 \<le> vo"
  shows "\<exists>k\<le>length (runes dat).
           find_closest_offsets_loop ts voffset dat (bo, co, vo) =
             (bo + byte_width (take k (runes dat)), co + int k,
              visual_width ts vo (take k (runes dat))) \<and>
           (k < length (runes dat) \<longrightarrow>
              voffset < visual_width ts vo (take (Suc k) (runes dat))) \<and>
           (vo \<le> voffset \<longrightarrow> visual_width ts vo (take k (runes dat)) \<le> voffset)"
  using assms
proof (induction ts voffset dat "(bo, co, vo)" arbitrary: bo co vo
       rule: find_closest_offsets_loop.induct)
  case (1 ts voffset dat bo co vo)
  show ?case
  proof (cases "dat = []")
    case True
    then show ?thesis
      by (simp add: byte_width_def visual_width_def runes.simps
          find_closest_offsets_loop.simps)
  next
    case False
    define r where "r = fst (DecodeRune dat)"
    define rlen where "rlen = snd (DecodeRune dat)"
    define dat' where "dat' = drop rlen dat"
    define vodif where "vodif = (if r = 9 then ts - vo smod ts else 1)"
    have rs: "runes dat = (r, rlen) # runes dat'"
      using False by (subst runes.simps) (simp add: r_def rlen_def dat'_def)
    have step: "vo + vodif = visual_step ts vo r"
      using "1.prems" visual_step_tab [of ts vo] by (simp add: vodif_def visual_step_def)
    show ?thesis
    proof (cases "vo + vodif > voffset")
      case True
      have "find_closest_offsets_loop ts voffset dat (bo, co, vo) = (bo, co, vo)"
        using False True
        by (subst find_closest_offsets_loop.simps)
           (simp add: Let_def r_def rlen_def dat'_def vodif_def)
      moreover have "voffset < visual_width ts vo (take (Suc 0) (runes dat))"
        using True step by (simp add: rs visual_width_def)
      ultimately show ?thesis
        by (intro exI [of _ 0]) (simp add: byte_width_def visual_width_def)
    next
      case stay: False
      have eq: "find_closest_offsets_loop ts voffset dat (bo, co, vo) =
                find_closest_offsets_loop ts voffset dat' (bo + int rlen, co + 1, vo + vodif)"
        using False stay
        by (subst find_closest_offsets_loop.simps)
           (simp add: Let_def r_def rlen_def dat'_def vodif_def)
      have nonneg: "0 \<le> vo + vodif"
        using "1.prems" visual_step_gt [of ts vo r] step by simp
      from "1.hyps" [OF False r_def rlen_def dat'_def vodif_def stay "1.prems"(1) nonneg]
      obtain k where k: "k \<le> length (runes dat')"
        "find_closest_offsets_loop ts voffset dat' (bo + int rlen, co + 1, vo + vodif) =
           (bo + int rlen + byte_width (take k (runes dat')), co + 1 + int k,
            visual_width ts (vo + vodif) (take k (runes dat')))"
        "k < length (runes dat') \<longrightarrow>
           voffset < visual_width ts (vo + vodif) (take (Suc k) (runes dat'))"
        "vo + vodif \<le> voffset \<longrightarrow>
           visual_width ts (vo + vodif) (take k (runes dat')) \<le> voffset"
        by blast
      show ?thesis
        using k stay eq step
        by (intro exI [of _ "Suc k"]) (simp add: rs byte_width_def visual_width_def)
    qed
  qed
qed

text \<open>
  Claim C8. For a positive tab-stop width and a target visual column (a column is not
  negative), \<open>find_closest_offsets\<close> returns the byte, character and visual offsets of
  the longest prefix of the line's characters whose visual width does not exceed the
  target: \<open>co\<close> characters, their bytes, their visual width, and every prefix that fits
  is at most \<open>co\<close> characters long. With tab-stop width 8, the line \<open>a\<bslash>tb\<close> and
  target column 5 it returns \<open>(1, 1, 1)\<close>.
\<close>

theorem find_closest_offsets_closest:
  assumes "0 < ts" and "0 \<le> voffset"
    and "find_closest_offsets ts dat voffset = (bo, co, vo)"
  shows "(0 \<le> co \<and> nat co \<le> length (runes dat) \<and>
          bo = byte_width (take (nat co) (runes dat)) \<and>
          vo = visual_width ts 0 (take (nat co) (runes dat)) \<and>
          vo \<le> voffset \<and>
          (\<forall>j\<le>length (runes dat).
             visual_width ts 0 (take j (runes dat)) \<le> voffset \<longrightarrow> j \<le> nat co)) \<and>
         find_closest_offsets 8 [0x61, 0x09, 0x62] 5 = (1, 1, 1)"
proof -
  from find_closest_offsets_loop_prefix [of ts 0 dat voffset 0 0] assms
  obtain k where k: "k \<le> length (runes dat)"
    "bo = byte_width (take k (runes dat))" "co = int k"
    "vo = visual_width ts 0 (take k (runes dat))"
    "k < length (runes dat) \<longrightarrow> voffset < visual_width ts 0 (take (Suc k) (runes dat))"
    "vo \<le> voffset"
    by (auto simp: find_closest_offsets_def)
  have "j \<le> k" if "j \<le> length (runes dat)"
    and "visual_width ts 0 (take j (runes dat)) \<le> voffset" for j
  proof (rule ccontr)
    assume "\<not> j \<le> k"
    then have "Suc k \<le> j" "k < length (runes dat)"
      using that(1) by auto
    then have "voffset < visual_width ts 0 (take j (runes dat))"
      using k(5) visual_width_take_mono [OF assms(1), of "Suc k" j 0 "runes dat"] by simp
    with that(2) show False by simp
  qed
  moreover have "find_closest_offsets 8 [0x61, 0x09, 0x62] 5 = (1, 1, 1)"
    by code_simp
  ultimately show ?thesis
    using k by simp
qed

theorem find_closest_offsets_closest_witness:
  "(0::int) < 8 \<and> (0::int) \<le> 5 \<and> find_closest_offsets 8 [0x61, 0x09, 0x62] 5 = (1, 1, 1) \<and>
   nat 1 \<le> length (runes [0x61, 0x09, 0x62]) \<and>
   byte_width (take (nat 1) (runes [0x61, 0x09, 0x62])) = 1 \<and>
   visual_width 8 0 (take (nat 1) (runes [0x61, 0x09, 0x62])) = 1 \<and>
   visual_width 8 0 (take 2 (runes [0x61, 0x09, 0x62])) = 8"
proof -
  have e: "find_closest_offsets 8 [0x61, 0x09, 0x62] 5 = (1, 1, 1)"
    by code_simp
  have r: "runes [0x61, 0x09, 0x62] = [(0x61, 1), (9, 1), (0x62, 1)]"
    by code_simp
  show ?thesis
    using find_closest_offsets_closest [of 8 5 "[0x61, 0x09, 0x62]" 1 1 1, OF _ _ e] e
    by (simp add: r visual_width_def visual_step_def byte_width_def)
qed

section \<open>Claim C1: loading a stream and reading it back\<close>

text \<open>
  \<open>reader_at ls lst br C\<close>: on the line store \<open>ls\<close>, with \<open>lst\<close> the buffer's last
  line, the bytes still to be read from the reader \<open>br\<close> are \<open>C\<close>: the rest of the
  current line, and for every line that is not the last one a newline and the next
  line.
\<close>

inductive reader_at :: "(lref \<Rightarrow> line) \<Rightarrow> lref option \<Rightarrow> buffer_reader \<Rightarrow> byte list \<Rightarrow> bool"
  for ls :: "lref \<Rightarrow> line" and lst :: "lref option" where
  at_nil: "br_line br = None \<Longrightarrow> reader_at ls lst br []"
| at_last:
  "br_line br = Some l \<Longrightarrow> lst = Some l \<Longrightarrow> line_next (ls l) = None \<Longrightarrow>
   0 \<le> br_offset br \<Longrightarrow> br_offset br \<le> int (length (line_data (ls l))) \<Longrightarrow>
   reader_at ls lst br (drop (nat (br_offset br)) (line_data (ls l)))"
| at_line:
  "br_line br = Some l \<Longrightarrow> lst \<noteq> Some l \<Longrightarrow>
   0 \<le> br_offset br \<Longrightarrow> br_offset br \<le> int (length (line_data (ls l))) \<Longrightarrow>
   reader_at ls lst \<lparr>br_line = line_next (ls l), br_offset = 0\<rparr> C \<Longrightarrow>
   reader_at ls lst br (drop (nat (br_offset br)) (line_data (ls l)) @ 0x0A # C)"

lemma Read_loop_at:
  assumes "reader_at ls lst br C"
  shows "\<exists>br'. Read_loop ls lst n out br =
            Some (out @ take n C, if n \<le> length C then None else Some EOF, br') \<and>
          reader_at ls lst br' (drop n C)"
  using assms
proof (induction arbitrary: n out rule: reader_at.induct)
  case (at_nil br)
  then show ?case
    by (subst Read_loop.simps) (auto intro: reader_at.at_nil)
next
  case (at_last br l)
  let ?d = "line_data (ls l)"
  let ?o = "nat (br_offset br)"
  show ?case
  proof (cases "n \<le> length ?d - ?o")
    case True
    have "reader_at ls lst (br\<lparr>br_offset := br_offset br + int n\<rparr>)
            (drop (nat (br_offset br + int n)) ?d)"
      using at_last True
        reader_at.at_last [of "br\<lparr>br_offset := br_offset br + int n\<rparr>" l lst ls]
      by simp
    moreover have "nat (br_offset br + int n) = n + ?o"
      using at_last by simp
    ultimately have "reader_at ls lst (br\<lparr>br_offset := br_offset br + int n\<rparr>) (drop n (drop ?o ?d))"
      by simp
    then show ?thesis
      using at_last True
      by (subst Read_loop.simps) (auto simp: Let_def)
  next
    case False
    have nil: "reader_at ls lst (br\<lparr>br_line := None, br_offset := 0\<rparr>) []"
      by (rule reader_at.at_nil) simp
    have "Read_loop ls lst (n - length (drop ?o ?d)) (out @ drop ?o ?d)
            (br\<lparr>br_line := None, br_offset := 0\<rparr>) =
          Some (out @ drop ?o ?d, Some EOF, br\<lparr>br_line := None, br_offset := 0\<rparr>)"
      using False by (subst Read_loop.simps) auto
    then show ?thesis
      using at_last False nil
      by (subst Read_loop.simps) (auto simp: Let_def)
  qed
next
  case (at_line br l C)
  let ?d = "line_data (ls l)"
  let ?o = "nat (br_offset br)"
  let ?chunk = "drop ?o ?d"
  show ?case
  proof (cases "n \<le> length ?d - ?o")
    case True
    have "reader_at ls lst (br\<lparr>br_offset := br_offset br + int n\<rparr>)
            (drop (nat (br_offset br + int n)) ?d @ 0x0A # C)"
      using at_line.hyps True
        reader_at.at_line [of "br\<lparr>br_offset := br_offset br + int n\<rparr>" l lst ls C]
      by simp
    moreover have "nat (br_offset br + int n) = n + ?o"
      using at_line by simp
    ultimately have "reader_at ls lst (br\<lparr>br_offset := br_offset br + int n\<rparr>)
        (drop n (?chunk @ 0x0A # C))"
      using True by simp
    then show ?thesis
      using at_line True
      by (subst Read_loop.simps) (auto simp: Let_def)
  next
    case False
    define m where "m = n - length ?chunk - 1"
    from at_line.IH [of m "out @ ?chunk @ [0x0A]"]
    obtain br' where br': "Read_loop ls lst m (out @ ?chunk @ [0x0A])
          \<lparr>br_line = line_next (ls l), br_offset = 0\<rparr> =
        Some ((out @ ?chunk @ [0x0A]) @ take m C, if m \<le> length C then None else Some EOF, br')"
      "reader_at ls lst br' (drop m C)"
      by blast
    have n: "n = length ?chunk + 1 + m"
      using False by (simp add: m_def)
    have upd: "br\<lparr>br_line := line_next (ls l), br_offset := 0\<rparr> =
        \<lparr>br_line = line_next (ls l), br_offset = 0\<rparr>"
      by simp
    have "Read_loop ls lst n out br =
        Read_loop ls lst m (out @ ?chunk @ [0x0A]) \<lparr>br_line = line_next (ls l), br_offset = 0\<rparr>"
      using at_line.hyps False
      by (subst Read_loop.simps) (auto simp: Let_def m_def upd)
    then show ?thesis
      using br' by (auto simp: n)
  qed
qed

lemma read_all_at:
  assumes "reader_at ls lst br C" and "\<And>i. 0 < sizes i"
  shows "read_all ls lst sizes i br acc = Some (acc @ C)"
  using assms(1)
proof (induction "length C" arbitrary: C i br acc rule: less_induct)
  case less
  from Read_loop_at [OF less.prems, of "sizes i" "[]"]
  obtain br' where br': "Read ls lst (sizes i) br =
        Some (take (sizes i) C, if sizes i \<le> length C then None else Some EOF, br')"
    "reader_at ls lst br' (drop (sizes i) C)"
    by (auto simp: Read_def)
  show ?case
  proof (cases "sizes i \<le> length C")
    case True
    then have "length (drop (sizes i) C) < length C"
      using assms(2) [of i] by simp
    from less.hyps [OF this br'(2)]
    have "read_all ls lst sizes (Suc i) br' (acc @ take (sizes i) C) = Some (acc @ C)"
      by simp
    then show ?thesis
      using br'(1) True by (subst read_all.simps) simp
  next
    case False
    then show ?thesis
      using br'(1) by (subst read_all.simps) simp
  qed
qed

lemma reader_at_cong:
  assumes "reader_at ls lst br C"
    and "\<And>a. line_data (ls' a) = line_data (ls a) \<and> line_next (ls' a) = line_next (ls a)"
  shows "reader_at ls' lst br C"
  using assms(1)
proof (induction rule: reader_at.induct)
  case (at_nil br)
  then show ?case by (rule reader_at.at_nil)
next
  case (at_last br l)
  then show ?case
    using assms(2) [of l] reader_at.at_last [of br l lst ls'] by simp
next
  case (at_line br l C)
  then show ?case
    using assms(2) [of l] reader_at.at_line [of br l lst ls' C] by simp
qed

lemma ReadBytes_none:
  assumes "ReadBytes delim r = (d, None, r')"
  shows "rd_bytes r = butlast d @ delim # rd_bytes r' \<and> d \<noteq> []"
proof -
  let ?P = "\<lambda>b. b \<noteq> delim"
  from assms obtain x rest where dw: "dropWhile ?P (rd_bytes r) = x # rest"
    and d: "d = takeWhile ?P (rd_bytes r) @ [x]" and r': "rd_bytes r' = rest"
    by (auto simp: ReadBytes_def split: list.splits)
  have "x = delim"
    using hd_dropWhile [of ?P "rd_bytes r"] dw by auto
  moreover have "rd_bytes r = takeWhile ?P (rd_bytes r) @ dropWhile ?P (rd_bytes r)"
    by simp
  ultimately show ?thesis
    using dw d r' by (simp add: butlast_append)
qed

lemma ReadBytes_some:
  assumes "ReadBytes delim r = (d, Some e, r')"
  shows "d = rd_bytes r \<and> e = rd_err r"
  using assms by (auto simp: ReadBytes_def split: list.splits)

lemma load_lines_chain:
  assumes "load_lines s b l prevline r = (s', b', l', prev', e)"
    and "l < lines_new s" and "line_next (lines s l) = None"
  shows "reader_at (lines s') (Some l') \<lparr>br_line = Some l, br_offset = 0\<rparr> (rd_bytes r) \<and>
         e = rd_err r \<and> (l' = l \<or> lines_new s \<le> l') \<and>
         (\<forall>a<lines_new s. a \<noteq> l \<longrightarrow> lines s' a = lines s a) \<and>
         first_line b' = first_line b"
  using assms
proof (induction s b l prevline r arbitrary: s' b' l' prev' e rule: load_lines.induct)
  case (1 s b l prevline r)
  obtain d err r' where rb: "ReadBytes 0x0A r = (d, err, r')"
    by (cases "ReadBytes 0x0A r") auto
  show ?case
  proof (cases err)
    case (Some e0)
    from "1.prems"(1) rb Some
    have res: "s' = set_line l (\<lambda>x. x\<lparr>line_data := d\<rparr>) s" "b' = b" "l' = l" "e = e0"
      by (auto simp: load_lines.simps [of s b l prevline r])
    from ReadBytes_some [of "0x0A" r d e0 r'] rb Some
    have d: "d = rd_bytes r" "e0 = rd_err r"
      by auto
    have "reader_at (lines s') (Some l') \<lparr>br_line = Some l, br_offset = 0\<rparr>
        (drop (nat (br_offset \<lparr>br_line = Some l, br_offset = 0\<rparr>)) (line_data (lines s' l)))"
      using "1.prems"(3) res
      by (intro reader_at.at_last) (auto simp: set_line_def)
    moreover have "line_data (lines s' l) = rd_bytes r"
      using res d by (simp add: set_line_def)
    ultimately have "reader_at (lines s') (Some l') \<lparr>br_line = Some l, br_offset = 0\<rparr> (rd_bytes r)"
      by simp
    moreover have "\<forall>a<lines_new s. a \<noteq> l \<longrightarrow> lines s' a = lines s a"
      using res by (simp add: set_line_def)
    ultimately show ?thesis
      using res(2,3,4) d(2) by blast
  next
    case None
    define s1 where "s1 = set_line l (\<lambda>x. x\<lparr>line_data := d\<rparr>) s"
    define b1 where "b1 = b\<lparr>bytes_n := bytes_n b + int (length d)\<rparr>"
    define s2 where "s2 = set_line l (\<lambda>x. x\<lparr>line_data := butlast d\<rparr>) s1"
    define b2 where "b2 = b1\<lparr>lines_n := lines_n b1 + 1\<rparr>"
    define n where "n = fst (new_line s2)"
    define s3 where "s3 = snd (new_line s2)"
    define s4 where "s4 = set_line l (\<lambda>x. x\<lparr>line_next := Some n\<rparr>) s3"
    define s5 where "s5 = set_line l (\<lambda>x. x\<lparr>line_prev := prevline\<rparr>) s4"
    have ns: "(n, s3) = new_line s2"
      by (simp add: n_def s3_def)
    have rec: "load_lines s5 b2 n (Some l) r' = (s', b', l', prev', e)"
      using "1.prems"(1) rb None
      by (simp add: load_lines.simps [of s b l prevline r] Let_def s1_def b1_def s2_def
          b2_def n_def s3_def s4_def s5_def split: prod.splits)
    have n: "n = lines_new s"
      by (simp add: n_def s2_def s1_def new_line_def set_line_def)
    have new5: "lines_new s5 = Suc n"
      by (simp add: s5_def s4_def s3_def n_def s2_def s1_def new_line_def set_line_def)
    have ln: "l \<noteq> n"
      using "1.prems"(2) n by simp
    have at_n: "line_next (lines s5 n) = None"
      using ln by (simp add: s5_def s4_def s3_def n_def new_line_def set_line_def zero_line_def)
    have at_l: "line_data (lines s5 l) = butlast d" "line_next (lines s5 l) = Some n"
      using ln by (simp_all add: s5_def s4_def s3_def s2_def s1_def n_def new_line_def set_line_def)
    have other: "a \<noteq> l \<Longrightarrow> a \<noteq> n \<Longrightarrow> lines s5 a = lines s a" for a
      by (simp add: s5_def s4_def s3_def s2_def s1_def n_def new_line_def set_line_def)
    from "1.IH" [OF rb [symmetric] refl None s1_def b1_def s2_def b2_def refl ns s4_def s5_def rec _ at_n]
    have ih: "reader_at (lines s') (Some l') \<lparr>br_line = Some n, br_offset = 0\<rparr> (rd_bytes r')"
      "e = rd_err r'" "l' = n \<or> Suc n \<le> l'"
      "\<forall>a<Suc n. a \<noteq> n \<longrightarrow> lines s' a = lines s5 a"
      "first_line b' = first_line b2"
      by (simp_all add: new5)
    have same_l: "lines s' l = lines s5 l"
      using ih(4) "1.prems"(2) n by simp
    have "reader_at (lines s') (Some l') \<lparr>br_line = Some l, br_offset = 0\<rparr>
        (drop (nat (br_offset \<lparr>br_line = Some l, br_offset = 0\<rparr>)) (line_data (lines s' l))
          @ 0x0A # rd_bytes r')"
      using ih(1,3) "1.prems"(2) n same_l at_l
      by (intro reader_at.at_line) auto
    moreover from ReadBytes_none [of "0x0A" r d r'] rb None
    have "rd_bytes r = butlast d @ 0x0A # rd_bytes r'"
      by simp
    moreover have "rd_err r' = rd_err r"
      using rb None by (auto simp: ReadBytes_def split: list.splits)
    moreover have "\<forall>a<lines_new s. a \<noteq> l \<longrightarrow> lines s' a = lines s a"
      using ih(4) other n by simp
    ultimately show ?thesis
      using ih same_l at_l n by (auto simp: b2_def b1_def)
  qed
qed

lemma init_history_lines:
  "init_history s b = (s', b') \<Longrightarrow>
     lines s' = lines s \<and> lines_new s' = lines_new s \<and> first_line b' = first_line b"
  by (auto simp: init_history_def new_action_group_def set_group_def Let_def split: prod.splits)

text \<open>
  Claim C1. For every byte stream that ends with \<open>io.EOF\<close> (the empty stream, a
  stream with no trailing newline and a single newline among them) and every store to
  allocate in, \<open>new_buffer_from_reader\<close> returns no error, and reading the buffer back
  through \<open>reader()\<close> until \<open>Read\<close> reports an error, with destination slices of any
  positive sizes, returns and yields exactly the bytes of the stream.
\<close>

theorem load_then_read_roundtrip:
  assumes "\<forall>i. 0 < sizes i"
  shows "case new_buffer_from_reader s \<lparr>rd_bytes = bs, rd_err = EOF\<rparr> of
           (s', b, err) \<Rightarrow>
             err = None \<and>
             read_all (lines s') (last_line b) sizes 0 (reader b) [] = Some bs"
proof -
  define r where "r = \<lparr>rd_bytes = bs, rd_err = EOF\<rparr>"
  define l where "l = fst (new_line s)"
  define s1 where "s1 = snd (new_line s)"
  define b where "b = zero_buffer\<lparr>loc := (loc zero_buffer)\<lparr>top_line := Some l, top_line_num := 1,
                 cursor := \<lparr>c_line = Some l, c_line_num = 1, c_boffset = 0\<rparr>\<rparr>\<rparr>"
  obtain s2 b1 where ih: "init_history s1 b = (s2, b1)"
    by (cases "init_history s1 b") auto
  define b3 where "b3 = b1\<lparr>lines_n := 1, first_line := Some l\<rparr>"
  obtain s3 b4 l' prevline e where ll: "load_lines s2 b3 l None r = (s3, b4, l', prevline, e)"
    by (cases "load_lines s2 b3 l None r") auto
  define s4 where "s4 = set_line l' (\<lambda>x. x\<lparr>line_prev := prevline\<rparr>) s3"
  define b5 where "b5 = b4\<lparr>last_line := Some l'\<rparr>"
  have res: "new_buffer_from_reader s r = (s4, b5, if e = EOF then None else Some e)"
    unfolding new_buffer_from_reader_def Let_def case_prod_beta
    using ih ll
    by (simp add: l_def s1_def b_def b3_def s4_def b5_def)
  from init_history_lines [OF ih]
  have s2: "lines s2 = lines s1" "lines_new s2 = lines_new s1"
    by simp_all
  have "l < lines_new s2" "line_next (lines s2 l) = None"
    by (simp_all add: s2 l_def s1_def new_line_def zero_line_def)
  from load_lines_chain [OF ll this]
  have ch: "reader_at (lines s3) (Some l') \<lparr>br_line = Some l, br_offset = 0\<rparr> bs"
    "e = EOF" "first_line b4 = Some l"
    by (simp_all add: r_def b3_def)
  have "reader_at (lines s4) (Some l') \<lparr>br_line = Some l, br_offset = 0\<rparr> bs"
    using ch(1) by (rule reader_at_cong) (simp add: s4_def set_line_def)
  then have "read_all (lines s4) (Some l') sizes 0 \<lparr>br_line = Some l, br_offset = 0\<rparr> [] = Some ([] @ bs)"
    using assms by (intro read_all_at) auto
  moreover have "reader b5 = \<lparr>br_line = Some l, br_offset = 0\<rparr>" "last_line b5 = Some l'"
    using ch(3) by (simp_all add: reader_def new_buffer_reader_def b5_def)
  ultimately show ?thesis
    using res ch(2) by (simp add: r_def)
qed

theorem load_then_read_roundtrip_witness:
  "(\<forall>i. 0 < Suc i) \<and>
   (case new_buffer_from_reader empty_store \<lparr>rd_bytes = [0x61, 0x0A, 0x0A, 0x62], rd_err = EOF\<rparr> of
      (s', b, err) \<Rightarrow>
        err = None \<and>
        read_all (lines s') (last_line b) Suc 0 (reader b) [] = Some [0x61, 0x0A, 0x0A, 0x62])"
  using load_then_read_roundtrip
    [where sizes = Suc and s = empty_store and bs = "[0x61, 0x0A, 0x0A, 0x62]"]
  by simp

section \<open>What the steps of a cursor move change\<close>

lemma height_update [simp]:
  "height (v\<lparr>cursor := c\<rparr>) = height v"
  "height (v\<lparr>top_line := t\<rparr>) = height v"
  "height (v\<lparr>top_line_num := n\<rparr>) = height v"
  "height (v\<lparr>cursor_coffset := n\<rparr>) = height v"
  "height (v\<lparr>cursor_voffset := n\<rparr>) = height v"
  "height (v\<lparr>line_voffset := n\<rparr>) = height v"
  "height (v\<lparr>last_cursor_voffset := n\<rparr>) = height v"
  "height (v\<lparr>dirty := n\<rparr>) = height v"
  "height (v\<lparr>ac := x\<rparr>) = height v"
  "height (v\<lparr>last_vcommand_class := k\<rparr>) = height v"
  by (simp_all add: height_def)

lemma vertical_threshold_update [simp]:
  "vertical_threshold E (v\<lparr>cursor := c\<rparr>) = vertical_threshold E v"
  "vertical_threshold E (v\<lparr>top_line := t\<rparr>) = vertical_threshold E v"
  "vertical_threshold E (v\<lparr>top_line_num := n\<rparr>) = vertical_threshold E v"
  "vertical_threshold E (v\<lparr>cursor_coffset := n\<rparr>) = vertical_threshold E v"
  "vertical_threshold E (v\<lparr>cursor_voffset := n\<rparr>) = vertical_threshold E v"
  "vertical_threshold E (v\<lparr>line_voffset := n\<rparr>) = vertical_threshold E v"
  "vertical_threshold E (v\<lparr>last_cursor_voffset := n\<rparr>) = vertical_threshold E v"
  "vertical_threshold E (v\<lparr>dirty := n\<rparr>) = vertical_threshold E v"
  "vertical_threshold E (v\<lparr>ac := x\<rparr>) = vertical_threshold E v"
  "vertical_threshold E (v\<lparr>last_vcommand_class := k\<rparr>) = vertical_threshold E v"
  by (simp_all add: vertical_threshold_def)

lemma adjust_line_voffset_frame:
  "\<exists>lv d. adjust_line_voffset E v = v\<lparr>line_voffset := lv, dirty := d\<rparr>"
proof (cases "line_voffset v \<noteq> adjusted_line_voffset E v")
  case True
  then show ?thesis
    by (auto simp: adjust_line_voffset_def Let_def)
next
  case False
  have "v = v\<lparr>line_voffset := line_voffset v, dirty := dirty v\<rparr>"
    by simp
  with False show ?thesis
    unfolding adjust_line_voffset_def Let_def by (metis (full_types))
qed

lemma move_top_line_n_times_frame:
  assumes "move_top_line_n_times ls n v = Some v'"
  shows "\<exists>t k. v' = v\<lparr>top_line := t, top_line_num := k\<rparr>"
proof (cases "n = 0")
  case True
  have "v = v\<lparr>top_line := top_line v, top_line_num := top_line_num v\<rparr>"
    by simp
  with True assms show ?thesis
    unfolding move_top_line_n_times_def by (metis option.inject)
next
  case False
  with assms show ?thesis
    by (auto simp: move_top_line_n_times_def Let_def split: option.splits prod.splits)
qed

lemma adjust_top_line_frame:
  assumes "adjust_top_line E ls v = Some v'"
  shows "\<exists>t k d. v' = v\<lparr>top_line := t, top_line_num := k, dirty := d\<rparr>"
proof -
  have id: "v = v\<lparr>top_line := top_line v, top_line_num := top_line_num v, dirty := dirty v\<rparr>"
    by simp
  obtain topl where topl: "top_line v = Some topl"
    using assms by (auto simp: adjust_top_line_def split: option.splits)
  let ?vt = "vertical_threshold E v"
  let ?co = "c_line_num (cursor v) - top_line_num v"
  let ?h = "height v"
  let ?c1 = "line_next (ls topl) \<noteq> None \<and> ?co \<ge> ?h - ?vt"
  let ?c2 = "line_prev (ls topl) \<noteq> None \<and> ?co < ?vt"
  let ?A = "if ?c1 then map_option (\<lambda>x. x\<lparr>dirty := dirty_everything\<rparr>)
                          (move_top_line_n_times ls (?co - (?h - ?vt) + 1) v) else Some v"
  let ?B = "\<lambda>v1. if ?c2 then map_option (\<lambda>x. x\<lparr>dirty := dirty_everything\<rparr>)
                    (move_top_line_n_times ls (?co - ?vt) v1) else Some v1"
  have "Option.bind ?A ?B = Some v'"
    using assms topl unfolding adjust_top_line_def Let_def by simp
  then obtain v1 where v1: "?A = Some v1" and v': "?B v1 = Some v'"
    by (auto simp: bind_eq_Some_conv)
  have "\<exists>t k d. v1 = v\<lparr>top_line := t, top_line_num := k, dirty := d\<rparr>"
  proof (cases ?c1)
    case True
    with v1 obtain x where x: "move_top_line_n_times ls (?co - (?h - ?vt) + 1) v = Some x"
      "v1 = x\<lparr>dirty := dirty_everything\<rparr>"
      by auto
    from move_top_line_n_times_frame [OF x(1)]
    obtain t k where "x = v\<lparr>top_line := t, top_line_num := k\<rparr>"
      by blast
    with x(2) show ?thesis
      by auto
  next
    case False
    with v1 id show ?thesis
      by (metis option.inject)
  qed
  then obtain t k d where f1: "v1 = v\<lparr>top_line := t, top_line_num := k, dirty := d\<rparr>"
    by blast
  show ?thesis
  proof (cases ?c2)
    case True
    with v' obtain x where x: "move_top_line_n_times ls (?co - ?vt) v1 = Some x"
      "v' = x\<lparr>dirty := dirty_everything\<rparr>"
      by auto
    from move_top_line_n_times_frame [OF x(1)]
    obtain t' k' where "x = v1\<lparr>top_line := t', top_line_num := k'\<rparr>"
      by blast
    with x(2) f1 show ?thesis
      by auto
  next
    case False
    with v' have "v' = v1"
      by (simp split: if_splits)
    with f1 show ?thesis
      by blast
  qed
qed

lemma set_cursor_offsets_frame:
  assumes "set_cursor_offsets E ls c v = Some v'"
  shows "\<exists>bo co vo. v' = v\<lparr>cursor := (cursor v)\<lparr>c_boffset := bo\<rparr>,
                            cursor_coffset := co, cursor_voffset := vo\<rparr> \<and>
           (0 \<le> c_boffset c \<longrightarrow> bo = c_boffset c)"
  using assms
  by (auto simp: set_cursor_offsets_def Let_def split: if_splits option.splits prod.splits)

lemma set_cursor_offsets_returns:
  "0 \<le> c_boffset c \<or> c_line c \<noteq> None \<Longrightarrow> set_cursor_offsets E ls c v \<noteq> None"
  by (auto simp: set_cursor_offsets_def Let_def split: option.splits prod.splits)

lemma update_autocompl_frame:
  "\<exists>x. update_autocompl E v = v\<lparr>ac := x\<rparr>"
proof (cases "ac v")
  case None
  have "v = v\<lparr>ac := ac v\<rparr>"
    by simp
  with None show ?thesis
    unfolding update_autocompl_def by (metis option.simps(4))
next
  case (Some a)
  then show ?thesis
    by (auto simp: update_autocompl_def Let_def split: prod.splits)
qed

lemma adjust_top_line_returns:
  "top_line v \<noteq> None \<Longrightarrow> adjust_top_line E ls v \<noteq> None"
  by (auto simp: adjust_top_line_def move_top_line_n_times_def Let_def
      split: option.splits prod.splits bind_splits)


lemma move_cursor_to_steps:
  assumes "move_cursor_to E ls c v = Some v'"
  shows "\<exists>v3 v4. adjust_top_line E ls v3 = Some v4 \<and> v' = update_autocompl E v4 \<and>
           top_line v3 = top_line v \<and> top_line_num v3 = top_line_num v \<and>
           c_line (cursor v3) = c_line c \<and> c_line_num (cursor v3) = c_line_num c \<and>
           (0 \<le> c_boffset c \<longrightarrow> c_boffset (cursor v3) = c_boffset c) \<and>
           uibuf_Height v3 = uibuf_Height v \<and> oneline v3 = oneline v \<and>
           uibuf_Width v3 = uibuf_Width v \<and>
           last_vcommand_class v3 = last_vcommand_class v"
proof -
  let ?v0 = "v\<lparr>dirty := dirty v OR dirty_status\<rparr>"
  from assms obtain v1 v4 where v1: "set_cursor_offsets E ls c ?v0 = Some v1"
    and v4: "adjust_top_line E ls (adjust_line_voffset E (set_cursor_line c v1)) = Some v4"
    and v': "v' = update_autocompl E v4"
    by (auto simp: move_cursor_to_def Let_def split: bind_splits)
  from set_cursor_offsets_frame [OF v1] obtain bo co vo
    where f1: "v1 = ?v0\<lparr>cursor := (cursor ?v0)\<lparr>c_boffset := bo\<rparr>,
                            cursor_coffset := co, cursor_voffset := vo\<rparr>"
      "0 \<le> c_boffset c \<longrightarrow> bo = c_boffset c"
    by blast
  define v2 where "v2 = set_cursor_line c v1"
  define v3 where "v3 = adjust_line_voffset E v2"
  obtain lv d where f3: "v3 = v2\<lparr>line_voffset := lv, dirty := d\<rparr>"
    using adjust_line_voffset_frame [of E v2] unfolding v3_def by blast
  have "top_line v3 = top_line v" "top_line_num v3 = top_line_num v"
    "c_line (cursor v3) = c_line c" "c_line_num (cursor v3) = c_line_num c"
    "0 \<le> c_boffset c \<longrightarrow> c_boffset (cursor v3) = c_boffset c"
    "uibuf_Height v3 = uibuf_Height v" "oneline v3 = oneline v"
    "uibuf_Width v3 = uibuf_Width v" "last_vcommand_class v3 = last_vcommand_class v"
    using f1(2) by (simp_all add: f3 v2_def f1(1) set_cursor_line_def Let_def)
  moreover have "adjust_top_line E ls v3 = Some v4"
    using v4 by (simp add: v3_def v2_def)
  ultimately show ?thesis
    using v' by blast
qed

lemma move_cursor_to_cursor:
  assumes "move_cursor_to E ls c v = Some v'"
  shows "c_line (cursor v') = c_line c \<and> c_line_num (cursor v') = c_line_num c \<and>
         (0 \<le> c_boffset c \<longrightarrow> c_boffset (cursor v') = c_boffset c)"
proof -
  from move_cursor_to_steps [OF assms] obtain v3 v4
    where s: "adjust_top_line E ls v3 = Some v4" "v' = update_autocompl E v4"
      "c_line (cursor v3) = c_line c" "c_line_num (cursor v3) = c_line_num c"
      "0 \<le> c_boffset c \<longrightarrow> c_boffset (cursor v3) = c_boffset c"
    by blast
  from adjust_top_line_frame [OF s(1)] obtain t k d
    where "v4 = v3\<lparr>top_line := t, top_line_num := k, dirty := d\<rparr>"
    by blast
  moreover obtain x where "update_autocompl E v4 = v4\<lparr>ac := x\<rparr>"
    using update_autocompl_frame by blast
  ultimately show ?thesis
    using s by simp
qed

lemma move_cursor_to_keeps:
  assumes "move_cursor_to E ls c v = Some v'"
  shows "uibuf_Height v' = uibuf_Height v \<and> oneline v' = oneline v \<and>
         uibuf_Width v' = uibuf_Width v \<and> last_vcommand_class v' = last_vcommand_class v"
proof -
  from move_cursor_to_steps [OF assms] obtain v3 v4
    where s: "adjust_top_line E ls v3 = Some v4" "v' = update_autocompl E v4"
      "uibuf_Height v3 = uibuf_Height v" "oneline v3 = oneline v"
      "uibuf_Width v3 = uibuf_Width v" "last_vcommand_class v3 = last_vcommand_class v"
    by blast
  from adjust_top_line_frame [OF s(1)] obtain t k d
    where "v4 = v3\<lparr>top_line := t, top_line_num := k, dirty := d\<rparr>"
    by blast
  moreover obtain x where "update_autocompl E v4 = v4\<lparr>ac := x\<rparr>"
    using update_autocompl_frame by blast
  ultimately show ?thesis
    using s by simp
qed

lemma move_cursor_to_returns:
  assumes "0 \<le> c_boffset c \<or> c_line c \<noteq> None" and "top_line v \<noteq> None"
  shows "move_cursor_to E ls c v \<noteq> None"
proof -
  let ?v0 = "v\<lparr>dirty := dirty v OR dirty_status\<rparr>"
  from set_cursor_offsets_returns [OF assms(1)] obtain v1
    where v1: "set_cursor_offsets E ls c ?v0 = Some v1"
    by blast
  from set_cursor_offsets_frame [OF v1] obtain bo co vo
    where f1: "v1 = ?v0\<lparr>cursor := (cursor ?v0)\<lparr>c_boffset := bo\<rparr>,
                            cursor_coffset := co, cursor_voffset := vo\<rparr>"
    by blast
  obtain lv d where f3: "adjust_line_voffset E (set_cursor_line c v1) =
      (set_cursor_line c v1)\<lparr>line_voffset := lv, dirty := d\<rparr>"
    using adjust_line_voffset_frame by blast
  have "top_line (set_cursor_line c v1) = top_line v"
    by (simp add: f1 set_cursor_line_def Let_def)
  moreover have "top_line (adjust_line_voffset E (set_cursor_line c v1)) =
      top_line (set_cursor_line c v1)"
    by (simp add: f3)
  ultimately have "top_line (adjust_line_voffset E (set_cursor_line c v1)) \<noteq> None"
    using assms(2) by simp
  from adjust_top_line_returns [OF this]
  show ?thesis
    using v1 by (auto simp: move_cursor_to_def Let_def split: bind_splits)
qed

lemma adjust_top_line_stays:
  assumes "top_line v \<noteq> None"
    and "vertical_threshold E v \<le> c_line_num (cursor v) - top_line_num v"
    and "c_line_num (cursor v) - top_line_num v < height v - vertical_threshold E v"
  shows "adjust_top_line E ls v = Some v"
  using assms by (auto simp: adjust_top_line_def Let_def)

lemma move_cursor_to_top_line_stays:
  assumes "move_cursor_to E ls c v = Some v'"
    and "vertical_threshold E v \<le> c_line_num c - top_line_num v"
    and "c_line_num c - top_line_num v < height v - vertical_threshold E v"
  shows "top_line v' = top_line v \<and> top_line_num v' = top_line_num v"
proof -
  from move_cursor_to_steps [OF assms(1)] obtain v3 v4
    where s: "adjust_top_line E ls v3 = Some v4" "v' = update_autocompl E v4"
      "top_line v3 = top_line v" "top_line_num v3 = top_line_num v"
      "c_line_num (cursor v3) = c_line_num c"
      "uibuf_Height v3 = uibuf_Height v" "oneline v3 = oneline v"
    by blast
  have hv: "height v3 = height v" "vertical_threshold E v3 = vertical_threshold E v"
    using s(6,7) by (simp_all add: height_def vertical_threshold_def)
  have "top_line v3 \<noteq> None"
    using s(1) by (auto simp: adjust_top_line_def split: option.splits)
  from adjust_top_line_stays [OF this, of E ls] assms(2,3) s(3,4,5) hv
  have "adjust_top_line E ls v3 = Some v3"
    by simp
  with s(1) have "v4 = v3"
    by simp
  moreover obtain x where "update_autocompl E v4 = v4\<lparr>ac := x\<rparr>"
    using update_autocompl_frame by blast
  ultimately show ?thesis
    using s by simp
qed

section \<open>Claim C5: an insert above the top line of another view\<close>

lemma dirty_status_keeps_contents:
  "(d OR dirty_status) AND dirty_contents = d AND dirty_contents"
  by (simp add: dirty_status_def dirty_contents_def bit.conj_disj_distrib2)

text \<open>
  Five lines at the addresses 0 to 4, and the same store after the lines at the
  addresses 1 and 2 (the second and the third line) have been unlinked; an insert and
  a delete of these two lines at the end of the first line; a view of three rows whose
  top line is the third line and whose cursor is on the fourth.
\<close>

definition store5 :: "lref \<Rightarrow> line" where
  "store5 = (\<lambda>_. zero_line)
     (0 := \<lparr>line_data = [], line_next = Some 1, line_prev = None\<rparr>,
      1 := \<lparr>line_data = [], line_next = Some 2, line_prev = Some 0\<rparr>,
      2 := \<lparr>line_data = [], line_next = Some 3, line_prev = Some 1\<rparr>,
      3 := \<lparr>line_data = [], line_next = Some 4, line_prev = Some 2\<rparr>,
      4 := \<lparr>line_data = [], line_next = None, line_prev = Some 3\<rparr>)"

definition store3 :: "lref \<Rightarrow> line" where
  "store3 = store5
     (0 := \<lparr>line_data = [], line_next = Some 3, line_prev = None\<rparr>,
      3 := \<lparr>line_data = [], line_next = Some 4, line_prev = Some 0\<rparr>)"

definition view3 :: "unit view" where
  "view3 = \<lparr>cursor = \<lparr>c_line = Some 3, c_line_num = 4, c_boffset = 0\<rparr>,
     top_line = Some 2, top_line_num = 3, cursor_coffset = 0, cursor_voffset = 0,
     line_voffset = 0, last_cursor_voffset = 0,
     uibuf_Width = 80, uibuf_Height = 4, dirty = 0, oneline = False, ac = None,
     last_vcommand_class = vcommand_class_none\<rparr>"

definition insert2 :: action where
  "insert2 = \<lparr>a_what = action_type_insert, a_data = [0x0A, 0x0A],
     a_cursor = \<lparr>c_line = Some 0, c_line_num = 1, c_boffset = 0\<rparr>,
     a_lines = [Some 1, Some 2]\<rparr>"

definition delete2 :: action where
  "delete2 = \<lparr>a_what = action_type_delete, a_data = [0x0A, 0x0A],
     a_cursor = \<lparr>c_line = Some 0, c_line_num = 1, c_boffset = 0\<rparr>,
     a_lines = [Some 1, Some 2]\<rparr>"

text \<open>
  Claim C5. When an insert action with \<open>N \<ge> 1\<close> new lines has its cursor on a line
  above the top line of a view (whose \<open>uibuf\<close> has a height that is not negative),
  \<open>on_insert\<close> returns the view with its top-line number and its cursor line number
  increased by \<open>N\<close> and the status bit added to \<open>dirty\<close>, and with nothing else
  changed: the top-line reference, the cursor's line and offsets, the horizontal pan;
  the content bit of \<open>dirty\<close> is as before. The line store is not written by
  \<open>on_insert\<close> (it is not among its results).
\<close>

theorem on_insert_above_top_line:
  assumes "c_line_num (a_cursor a) < top_line_num v"
    and "length (a_lines a) = N" and "1 \<le> N"
    and "0 \<le> uibuf_Height v"
  shows "on_insert E ls a v =
           Some (v\<lparr>top_line_num := top_line_num v + int N,
                   cursor := (cursor v)\<lparr>c_line_num := c_line_num (cursor v) + int N\<rparr>,
                   dirty := dirty v OR dirty_status\<rparr>) \<and>
         (dirty v OR dirty_status) AND dirty_contents = dirty v AND dirty_contents"
proof -
  have "- 1 \<le> height v"
    using assms(4) by (simp add: height_def)
  moreover have "0 < int N"
    using assms(3) by simp
  ultimately have "\<not> top_line_num v + int N + height v \<le> c_line_num (a_cursor a)"
    using assms(1) by arith
  then show ?thesis
    using assms(1,2) \<open>0 < int N\<close>
    by (simp add: on_insert_def on_insert_adjust_top_line_def Let_def
        dirty_status_keeps_contents)
qed

theorem on_insert_above_top_line_witness:
  "c_line_num (a_cursor insert2) < top_line_num view3 \<and>
   length (a_lines insert2) = 2 \<and> (1::nat) \<le> 2 \<and> 0 \<le> uibuf_Height view3 \<and>
   on_insert spec_env store5 insert2 view3 =
     Some (view3\<lparr>top_line_num := 5,
        cursor := \<lparr>c_line = Some 3, c_line_num = 6, c_boffset = 0\<rparr>, dirty := 2\<rparr>)"
  using on_insert_above_top_line [where N = 2 and E = spec_env and ls = store5 and
      a = insert2 and v = view3]
  by (simp add: view3_def insert2_def dirty_status_def)

section \<open>Claim C6: a delete that removes the top line of another view\<close>

lemma on_delete_commit_dirty:
  "on_delete_commit E ls a v = Some v' \<Longrightarrow> dirty v' = dirty_everything"
  by (auto simp: on_delete_commit_def Let_def split: bind_splits)

lemma on_delete_commit_top_line_stays:
  assumes "on_delete_commit E ls a v = Some v'"
    and "vertical_threshold E v \<le> c_line_num (on_delete_adjust E ls (cursor v) a) - top_line_num v"
    and "c_line_num (on_delete_adjust E ls (cursor v) a) - top_line_num v
           < height v - vertical_threshold E v"
  shows "top_line v' = top_line v \<and> top_line_num v' = top_line_num v"
proof -
  from assms(1) obtain v1
    where v1: "move_cursor_to E ls (on_delete_adjust E ls (cursor v) a) v = Some v1"
      and v': "v' = v1\<lparr>last_cursor_voffset := cursor_voffset v1, dirty := dirty_everything\<rparr>"
    by (auto simp: on_delete_commit_def Let_def split: bind_splits)
  from move_cursor_to_top_line_stays [OF v1 assms(2,3)] v' show ?thesis
    by simp
qed

lemma on_delete_commit_returns:
  assumes "0 \<le> c_boffset (on_delete_adjust E ls (cursor v) a) \<or>
           c_line (on_delete_adjust E ls (cursor v) a) \<noteq> None"
    and "top_line v \<noteq> None"
  shows "on_delete_commit E ls a v \<noteq> None"
  using move_cursor_to_returns [OF assms, of E ls]
  by (auto simp: on_delete_commit_def Let_def split: bind_splits)

text \<open>
  Claim C6, as amended. When a delete action removes a range of lines that includes
  the top line of a view, the first step of \<open>on_delete\<close>
  (\<open>on_delete_adjust_top_line\<close>) repoints the top line to the line after the line of
  the action's cursor, or to that line itself when it has no next line, sets the
  top-line number accordingly and sets both dirty bits. Then \<open>on_delete\<close> returns this
  view at once if the edit is below it, and otherwise commits the adjusted cursor
  through \<open>move_cursor_to\<close> (\<open>on_delete_commit\<close>). It returns whenever the adjusted
  cursor has a line or an offset that is not negative; when it returns both dirty
  bits are set; and the top line is the repointed one if the view was returned at
  once or the row of the adjusted cursor lies within the scroll margins. (Outside the
  margins the commit scrolls the view: the counterexample below.)
\<close>

theorem on_delete_top_line_deleted:
  assumes "c_line_num (a_cursor a) < top_line_num v"
    and "a_lines a \<noteq> []"
    and "deleted_lines E a = (dfirst, dlast)"
    and "dfirst \<le> top_line_num v" and "top_line_num v \<le> dlast"
    and "c_line (a_cursor a) = Some al"
  shows "\<exists>v1. on_delete_adjust_top_line E ls a v = Some v1 \<and>
           top_line v1 = (if line_next (ls al) \<noteq> None then line_next (ls al) else Some al) \<and>
           top_line_num v1 = (if line_next (ls al) \<noteq> None then c_line_num (a_cursor a) + 1
                              else c_line_num (a_cursor a)) \<and>
           dirty v1 = dirty_everything \<and>
           on_delete E ls a v =
             (if top_line_num v1 + height v \<le> c_line_num (a_cursor a) then Some v1
              else on_delete_commit E ls a v1) \<and>
           (0 \<le> c_boffset (on_delete_adjust E ls (cursor v) a) \<or>
            c_line (on_delete_adjust E ls (cursor v) a) \<noteq> None
              \<longrightarrow> on_delete E ls a v \<noteq> None) \<and>
           (\<forall>v2. on_delete E ls a v = Some v2 \<longrightarrow>
              dirty v2 = dirty_everything \<and>
              (top_line_num v1 + height v \<le> c_line_num (a_cursor a) \<or>
               (vertical_threshold E v
                  \<le> c_line_num (on_delete_adjust E ls (cursor v) a) - top_line_num v1 \<and>
                c_line_num (on_delete_adjust E ls (cursor v) a) - top_line_num v1
                  < height v - vertical_threshold E v)
               \<longrightarrow> top_line v2 = top_line v1 \<and> top_line_num v2 = top_line_num v1))"
proof -
  define v1 where "v1 =
    (if line_next (ls al) \<noteq> None
     then v\<lparr>top_line := line_next (ls al), top_line_num := c_line_num (a_cursor a) + 1\<rparr>
     else v\<lparr>top_line := Some al, top_line_num := c_line_num (a_cursor a)\<rparr>)
    \<lparr>dirty := dirty_everything\<rparr>"
  have adj: "on_delete_adjust_top_line E ls a v = Some v1"
    using assms by (simp add: on_delete_adjust_top_line_def Let_def v1_def)
  have t1: "top_line v1 = (if line_next (ls al) \<noteq> None then line_next (ls al) else Some al)"
    "top_line_num v1 = (if line_next (ls al) \<noteq> None then c_line_num (a_cursor a) + 1
                              else c_line_num (a_cursor a))"
    "dirty v1 = dirty_everything" "height v1 = height v" "cursor v1 = cursor v"
    "vertical_threshold E v1 = vertical_threshold E v" "top_line v1 \<noteq> None"
    by (simp_all add: v1_def)
  have "\<not> dlast < top_line_num v1"
    using assms(1,5) t1(2) by (simp split: if_splits)
  then have od: "on_delete E ls a v =
      (if top_line_num v1 + height v \<le> c_line_num (a_cursor a) then Some v1
       else on_delete_commit E ls a v1)"
    using assms(2,3) adj t1(4) by (simp add: on_delete_def Let_def)
  have ret: "on_delete E ls a v \<noteq> None"
    if "0 \<le> c_boffset (on_delete_adjust E ls (cursor v) a) \<or>
        c_line (on_delete_adjust E ls (cursor v) a) \<noteq> None"
    using on_delete_commit_returns [of E ls v1 a] that t1(5,7) od by simp
  have post: "dirty v2 = dirty_everything \<and>
      (top_line_num v1 + height v \<le> c_line_num (a_cursor a) \<or>
       (vertical_threshold E v
          \<le> c_line_num (on_delete_adjust E ls (cursor v) a) - top_line_num v1 \<and>
        c_line_num (on_delete_adjust E ls (cursor v) a) - top_line_num v1
          < height v - vertical_threshold E v)
       \<longrightarrow> top_line v2 = top_line v1 \<and> top_line_num v2 = top_line_num v1)"
    if v2: "on_delete E ls a v = Some v2" for v2
  proof (cases "top_line_num v1 + height v \<le> c_line_num (a_cursor a)")
    case True
    with v2 od t1(3) show ?thesis
      by simp
  next
    case False
    with v2 od have c: "on_delete_commit E ls a v1 = Some v2"
      by simp
    from on_delete_commit_top_line_stays [OF c] on_delete_commit_dirty [OF c] False t1(4,5,6)
    show ?thesis
      by simp
  qed
  show ?thesis
    using adj t1(1,2,3) od ret post by blast
qed

theorem on_delete_top_line_deleted_witness:
  "c_line_num (a_cursor delete2) < top_line_num view3 \<and> a_lines delete2 \<noteq> [] \<and>
   deleted_lines spec_env delete2 = (2, 3) \<and>
   2 \<le> top_line_num view3 \<and> top_line_num view3 \<le> 3 \<and>
   c_line (a_cursor delete2) = Some 0 \<and>
   on_delete_adjust_top_line spec_env store3 delete2 view3 =
     Some (view3\<lparr>top_line := Some 3, top_line_num := 2, dirty := dirty_everything\<rparr>) \<and>
   on_delete spec_env store3 delete2 view3 \<noteq> None"
proof -
  have h: "c_line_num (a_cursor delete2) < top_line_num view3" "a_lines delete2 \<noteq> []"
    "deleted_lines spec_env delete2 = (2, 3)"
    "2 \<le> top_line_num view3" "top_line_num view3 \<le> 3"
    "c_line (a_cursor delete2) = Some 0"
    by (simp_all add: delete2_def view3_def spec_env_def spec_deleted_lines_def)
  have c: "0 \<le> c_boffset (on_delete_adjust spec_env store3 (cursor view3) delete2)"
    by (simp add: spec_env_def spec_on_delete_adjust_def delete2_def view3_def Let_def)
  from on_delete_top_line_deleted [of delete2 view3 spec_env 2 3 0 store3, OF h]
  have "0 \<le> c_boffset (on_delete_adjust spec_env store3 (cursor view3) delete2) \<or>
        c_line (on_delete_adjust spec_env store3 (cursor view3) delete2) \<noteq> None
          \<longrightarrow> on_delete spec_env store3 delete2 view3 \<noteq> None"
    by blast
  with c have r: "on_delete spec_env store3 delete2 view3 \<noteq> None"
    by blast
  have "on_delete_adjust_top_line spec_env store3 delete2 view3 =
     Some (view3\<lparr>top_line := Some 3, top_line_num := 2, dirty := dirty_everything\<rparr>)"
    by code_simp
  with h r show ?thesis
    by blast
qed

text \<open>
  The claim as stated fails. On the store of three linked lines, the view has three
  rows (margin 1), its top line was the third line and its cursor is on the fourth
  line, below the two removed lines. \<open>on_delete\<close> repoints the top line to the line
  after the first (address 3, now the second line); the cursor comes to row 0 of it,
  which is above the margin, and the commit scrolls the view one line up: the top
  line on return is the first line (address 0), the line of the action's cursor,
  although that line has a next line.
\<close>

theorem on_delete_top_line_counterexample:
  "c_line_num (a_cursor delete2) < top_line_num view3 \<and>
   deleted_lines spec_env delete2 = (2, 3) \<and> top_line_num view3 = 3 \<and>
   c_line (a_cursor delete2) = Some 0 \<and> line_next (store3 0) = Some 3 \<and>
   on_delete spec_env store3 delete2 view3 =
     Some (view3\<lparr>cursor := \<lparr>c_line = Some 3, c_line_num = 2, c_boffset = 0\<rparr>,
             top_line := Some 0, top_line_num := 1, dirty := dirty_everything\<rparr>)"
  by code_simp

section \<open>Claim C7: the vertical scroll margins\<close>

text \<open>
  \<open>dll ls p xs\<close>: on the store \<open>ls\<close> the addresses \<open>xs\<close> are a doubly linked list of
  lines, the first one with \<open>prev = p\<close>, the last one with \<open>next = nil\<close>. A buffer's
  lines are \<open>dll ls None xs\<close>, and line number \<open>k\<close> is \<open>xs ! (k - 1)\<close>.
\<close>

fun dll :: "(lref \<Rightarrow> line) \<Rightarrow> lref option \<Rightarrow> lref list \<Rightarrow> bool" where
  "dll ls p [] = True"
| "dll ls p (x # xs) =
     (line_prev (ls x) = p \<and>
      line_next (ls x) = (case xs of [] \<Rightarrow> None | y # _ \<Rightarrow> Some y) \<and>
      dll ls (Some x) xs)"

lemma dll_nth:
  assumes "dll ls p xs" and "i < length xs"
  shows "line_next (ls (xs ! i)) = (if Suc i < length xs then Some (xs ! Suc i) else None) \<and>
         line_prev (ls (xs ! i)) = (if i = 0 then p else Some (xs ! (i - 1)))"
  using assms
proof (induction xs arbitrary: p i)
  case Nil
  then show ?case by simp
next
  case (Cons x xs)
  show ?case
  proof (cases i)
    case 0
    with Cons.prems show ?thesis
      by (cases xs) auto
  next
    case (Suc j)
    with Cons.prems have "dll ls (Some x) xs" "j < length xs"
      by auto
    from Cons.IH [OF this] Suc show ?thesis
      by (cases j) auto
  qed
qed

lemma walk_prev_dll:
  assumes "dll ls None xs" and "i < length xs"
  shows "walk_prev ls (xs ! i) num n =
           (xs ! (i - min i (nat (- n))), num - int (min i (nat (- n))),
            n + int (min i (nat (- n))))"
  using assms(2)
proof (induction i arbitrary: num n)
  case 0
  with dll_nth [OF assms(1), of 0] show ?case
    by (simp add: walk_prev.simps [of ls "xs ! 0"])
next
  case (Suc i)
  from dll_nth [OF assms(1) Suc.prems]
  have p: "line_prev (ls (xs ! Suc i)) = Some (xs ! i)"
    by simp
  show ?case
  proof (cases "n < 0")
    case True
    then have k: "min (Suc i) (nat (- n)) = Suc (min i (nat (- (n + 1))))"
      by (simp add: min_def) arith
    from Suc.prems have "i < length xs"
      by simp
    from Suc.IH [OF this, of "num - 1" "n + 1"] True p show ?thesis
      by (simp add: walk_prev.simps [of ls "xs ! Suc i"] k)
  next
    case False
    with p show ?thesis
      by (simp add: walk_prev.simps [of ls "xs ! Suc i"])
  qed
qed

lemma walk_next_dll:
  assumes "dll ls None xs" and "i < length xs"
  shows "walk_next ls (xs ! i) num n =
           (xs ! (i + min (length xs - 1 - i) (nat n)),
            num + int (min (length xs - 1 - i) (nat n)),
            n - int (min (length xs - 1 - i) (nat n)))"
  using assms(2)
proof (induction "length xs - 1 - i" arbitrary: i num n)
  case 0
  then have "\<not> Suc i < length xs"
    by simp
  with dll_nth [OF assms(1) "0.prems"] 0 show ?case
    by (simp add: walk_next.simps [of ls "xs ! i"])
next
  case (Suc d)
  then have lt: "Suc i < length xs"
    by simp
  from dll_nth [OF assms(1) Suc.prems] lt
  have p: "line_next (ls (xs ! i)) = Some (xs ! Suc i)"
    by simp
  show ?case
  proof (cases "n > 0")
    case True
    from Suc.hyps(2) have d: "d = length xs - 1 - Suc i"
      by simp
    have k: "min (length xs - Suc i) (nat n) = Suc (min (length xs - Suc (Suc i)) (nat (n - 1)))"
      using True lt by (simp add: min_def) arith
    from Suc.hyps(1) [OF d lt, of "num + 1" "n - 1"] True p show ?thesis
      by (simp add: walk_next.simps [of ls "xs ! i"] k)
  next
    case False
    with p show ?thesis
      by (simp add: walk_next.simps [of ls "xs ! i"])
  qed
qed

text \<open>Moving a line \<open>n\<close> times on a list: its index is clamped to the list.\<close>

definition clamp_index :: "nat \<Rightarrow> nat \<Rightarrow> int \<Rightarrow> nat" where
  "clamp_index len i n = nat (max 0 (min (int len - 1) (int i + n)))"

lemma walk_both_dll:
  assumes "dll ls None xs" and "i < length xs" and "n \<noteq> 0"
  shows "(case walk_prev ls (xs ! i) (int i + 1) n of
            (l1, num1, n1) \<Rightarrow> (case walk_next ls l1 num1 n1 of
               (l2, num2, n2) \<Rightarrow> (l2, num2))) =
         (xs ! clamp_index (length xs) i n, int (clamp_index (length xs) i n) + 1)"
proof (cases "n < 0")
  case True
  define k where "k = min i (nat (- n))"
  have j: "i - k < length xs"
    using assms(2) by simp
  have z: "nat (n + int k) = 0"
    using True by (simp add: k_def)
  have c: "clamp_index (length xs) i n = i - k"
    using True assms(2) by (simp add: clamp_index_def k_def min_def max_def) arith
  have kle: "k \<le> i"
    by (simp add: k_def)
  show ?thesis
    using walk_prev_dll [OF assms(1,2), of "int i + 1" n] walk_next_dll [OF assms(1) j, of _ "n + int k"]
    by (simp add: k_def [symmetric] z c of_nat_diff [OF kle])
next
  case False
  then have pos: "0 < n"
    using assms(3) by simp
  define k where "k = min (length xs - Suc i) (nat n)"
  have c: "clamp_index (length xs) i n = i + k"
    using pos assms(2) by (simp add: clamp_index_def k_def min_def max_def) arith
  have z: "min i (nat (- n)) = 0"
    using pos by simp
  show ?thesis
    using walk_prev_dll [OF assms(1,2), of "int i + 1" n] walk_next_dll [OF assms(1,2), of "int i + 1" n]
    by (simp add: z k_def [symmetric] c)
qed

definition clamp_line :: "nat \<Rightarrow> int \<Rightarrow> int" where
  "clamp_line len k = max 1 (min (int len) k)"

lemma clamp_index_line:
  "0 < len \<Longrightarrow> 1 \<le> t \<Longrightarrow> int (clamp_index len (nat (t - 1)) n) + 1 = clamp_line len (t + n)"
  by (simp add: clamp_index_def clamp_line_def min_def max_def)

lemma move_top_line_n_times_dll:
  assumes "dll ls None xs" and "1 \<le> top_line_num v" and "top_line_num v \<le> int (length xs)"
    and "top_line v = Some (xs ! nat (top_line_num v - 1))" and "n \<noteq> 0"
  shows "move_top_line_n_times ls n v =
           Some (v\<lparr>top_line := Some (xs ! nat (clamp_line (length xs) (top_line_num v + n) - 1)),
                   top_line_num := clamp_line (length xs) (top_line_num v + n)\<rparr>)"
proof -
  define i where "i = nat (top_line_num v - 1)"
  have i: "i < length xs" "top_line_num v = int i + 1"
    using assms(2,3) by (simp_all add: i_def)
  have len: "0 < length xs"
    using i(1) by (cases xs) auto
  from clamp_index_line [OF len assms(2), of n]
  have c: "int (clamp_index (length xs) i n) + 1 = clamp_line (length xs) (top_line_num v + n)"
    by (simp add: i_def)
  then have c': "nat (clamp_line (length xs) (top_line_num v + n) - 1) = clamp_index (length xs) i n"
    by simp
  from walk_both_dll [OF assms(1) i(1) assms(5)] assms(4,5) show ?thesis
    by (simp add: move_top_line_n_times_def i(2) [symmetric] i_def [symmetric] c c'
        split: prod.splits)
qed

lemma move_cursor_line_n_times_dll:
  assumes "dll ls None xs" and "1 \<le> c_line_num (cursor v)"
    and "c_line_num (cursor v) \<le> int (length xs)"
    and "c_line (cursor v) = Some (xs ! nat (c_line_num (cursor v) - 1))" and "n \<noteq> 0"
  shows "move_cursor_line_n_times ls n v =
           Some (v\<lparr>cursor := (cursor v)
              \<lparr>c_line := Some (xs ! nat (clamp_line (length xs) (c_line_num (cursor v) + n) - 1)),
               c_line_num := clamp_line (length xs) (c_line_num (cursor v) + n)\<rparr>\<rparr>)"
proof -
  define i where "i = nat (c_line_num (cursor v) - 1)"
  have i: "i < length xs" "c_line_num (cursor v) = int i + 1"
    using assms(2,3) by (simp_all add: i_def)
  have len: "0 < length xs"
    using i(1) by (cases xs) auto
  from clamp_index_line [OF len assms(2), of n]
  have c: "int (clamp_index (length xs) i n) + 1 =
      clamp_line (length xs) (c_line_num (cursor v) + n)"
    by (simp add: i_def)
  then have c': "nat (clamp_line (length xs) (c_line_num (cursor v) + n) - 1) =
      clamp_index (length xs) i n"
    by simp
  from walk_both_dll [OF assms(1) i(1) assms(5)] assms(4,5) show ?thesis
    by (simp add: move_cursor_line_n_times_def i(2) [symmetric] i_def [symmetric] c c'
        split: prod.splits)
qed

lemma vertical_threshold_bounds:
  assumes "1 \<le> height v" and "0 \<le> view_vertical_threshold E"
  shows "0 \<le> vertical_threshold E v \<and> 2 * vertical_threshold E v \<le> height v - 1"
proof -
  have "(height v - 1) sdiv 2 = (height v - 1) div 2"
    using assms(1) by (simp add: signed_divide_int_def sgn_if)
  then show ?thesis
    using assms by (auto simp: vertical_threshold_def Let_def)
qed

lemma adjust_top_line_margins:
  assumes d: "dll ls None xs" and h: "1 \<le> height v" and t: "0 \<le> view_vertical_threshold E"
    and T: "1 \<le> top_line_num v" "top_line_num v \<le> int (length xs)"
    and tl: "top_line v = Some (xs ! nat (top_line_num v - 1))"
    and C: "1 \<le> c_line_num (cursor v)" "c_line_num (cursor v) \<le> int (length xs)"
  shows "\<exists>v'. adjust_top_line E ls v = Some v' \<and> cursor v' = cursor v \<and>
           1 \<le> top_line_num v' \<and> top_line_num v' \<le> int (length xs) \<and>
           top_line v' = Some (xs ! nat (top_line_num v' - 1)) \<and>
           c_line_num (cursor v') - top_line_num v' < height v - vertical_threshold E v \<and>
           (vertical_threshold E v \<le> c_line_num (cursor v') - top_line_num v' \<or>
            top_line_num v' = 1) \<and>
           (height v - vertical_threshold E v \<le> c_line_num (cursor v) - top_line_num v \<longrightarrow>
              c_line_num (cursor v') - top_line_num v' = height v - vertical_threshold E v - 1) \<and>
           (c_line_num (cursor v) - top_line_num v < vertical_threshold E v \<and>
            vertical_threshold E v < c_line_num (cursor v) \<longrightarrow>
              c_line_num (cursor v') - top_line_num v' = vertical_threshold E v) \<and>
           (vertical_threshold E v \<le> c_line_num (cursor v) - top_line_num v \<and>
            c_line_num (cursor v) - top_line_num v < height v - vertical_threshold E v \<longrightarrow>
              v' = v)"
proof -
  define vt where "vt = vertical_threshold E v"
  define co where "co = c_line_num (cursor v) - top_line_num v"
  define hh where "hh = height v"
  define i where "i = nat (top_line_num v - 1)"
  from vertical_threshold_bounds [OF h t] have vt: "0 \<le> vt" "2 * vt \<le> hh - 1"
    by (simp_all add: vt_def hh_def)
  have i: "i < length xs"
    using T by (simp add: i_def)
  note nth = dll_nth [OF d i]
  have nx: "line_next (ls (xs ! i)) \<noteq> None \<longleftrightarrow> top_line_num v < int (length xs)"
    using nth T by (auto simp: i_def)
  have pv: "line_prev (ls (xs ! i)) \<noteq> None \<longleftrightarrow> 1 < top_line_num v"
    using nth T by (auto simp: i_def)
  consider (down) "hh - vt \<le> co" | (up) "co < vt" | (stay) "vt \<le> co" "co < hh - vt"
    by linarith
  then show ?thesis
  proof cases
    case down
    define n where "n = co - (hh - vt) + 1"
    have n: "n \<noteq> 0" "1 \<le> top_line_num v + n" "top_line_num v + n \<le> int (length xs)"
      using down vt C T by (simp_all add: n_def co_def)
    then have cl: "clamp_line (length xs) (top_line_num v + n) = top_line_num v + n"
      by (simp add: clamp_line_def)
    have lt: "top_line_num v < int (length xs)"
      using n down vt by (simp add: n_def)
    have nvt: "\<not> co < vt"
      using down vt by simp
    let ?v' = "v\<lparr>top_line := Some (xs ! nat (top_line_num v + n - 1)),
                 top_line_num := top_line_num v + n, dirty := dirty_everything\<rparr>"
    have "adjust_top_line E ls v = Some ?v'"
      using move_top_line_n_times_dll [OF d T tl n(1)] tl nx lt down nvt
      by (simp add: adjust_top_line_def Let_def cl i_def [symmetric] vt_def [symmetric]
          co_def [symmetric] hh_def [symmetric] n_def [symmetric])
    moreover have "c_line_num (cursor v) - (top_line_num v + n) = hh - vt - 1"
      by (simp add: n_def co_def)
    ultimately show ?thesis
      using n vt down nvt
      by (intro exI [of _ ?v'])
         (simp add: vt_def [symmetric] co_def [symmetric] hh_def [symmetric])
  next
    case up
    have nd: "\<not> hh - vt \<le> co"
      using up vt by simp
    show ?thesis
    proof (cases "1 < top_line_num v")
      case True
      define n where "n = co - vt"
      have n: "n \<noteq> 0"
        using up by (simp add: n_def)
      define T' where "T' = clamp_line (length xs) (top_line_num v + n)"
      have T': "T' = max 1 (c_line_num (cursor v) - vt)"
        using C vt by (simp add: T'_def clamp_line_def n_def co_def min_def)
      let ?v' = "v\<lparr>top_line := Some (xs ! nat (T' - 1)),
                   top_line_num := T', dirty := dirty_everything\<rparr>"
      have "adjust_top_line E ls v = Some ?v'"
        using move_top_line_n_times_dll [OF d T tl n] tl pv True up nd
        by (simp add: adjust_top_line_def Let_def i_def [symmetric] vt_def [symmetric]
            co_def [symmetric] hh_def [symmetric] n_def [symmetric] T'_def [symmetric])
      moreover have "1 \<le> T'" "T' \<le> int (length xs)"
        "c_line_num (cursor v) - T' < hh - vt"
        "vt \<le> c_line_num (cursor v) - T' \<or> T' = 1"
        "vt < c_line_num (cursor v) \<longrightarrow> c_line_num (cursor v) - T' = vt"
        using C vt by (auto simp: T' max_def)
      ultimately show ?thesis
        using up nd
        by (intro exI [of _ ?v'])
           (simp add: vt_def [symmetric] co_def [symmetric] hh_def [symmetric])
    next
      case False
      then have one: "top_line_num v = 1"
        using T by simp
      have "adjust_top_line E ls v = Some v"
        using tl pv False up nd
        by (simp add: adjust_top_line_def Let_def i_def [symmetric] vt_def [symmetric]
            co_def [symmetric] hh_def [symmetric])
      moreover have "\<not> vt < c_line_num (cursor v)"
        using up one by (simp add: co_def)
      ultimately show ?thesis
        using up nd one T tl vt
        by (intro exI [of _ v])
           (simp add: vt_def [symmetric] co_def [symmetric] hh_def [symmetric])
    qed
  next
    case stay
    have "adjust_top_line E ls v = Some v"
      using tl stay
      by (simp add: adjust_top_line_def Let_def vt_def [symmetric]
          co_def [symmetric] hh_def [symmetric])
    then show ?thesis
      using stay T tl
      by (intro exI [of _ v])
         (simp add: vt_def [symmetric] co_def [symmetric] hh_def [symmetric])
  qed
qed

lemma cursor_line_changed_frame:
  assumes "c_line (cursor v) \<noteq> None"
  shows "\<exists>bo co vo lv d. cursor_line_changed E ls cur v =
           Some (v\<lparr>cursor := (cursor v)\<lparr>c_boffset := bo\<rparr>, cursor_coffset := co,
                   cursor_voffset := vo, line_voffset := lv, dirty := d\<rparr>)"
proof (cases "Some cur \<noteq> c_line (cursor v)")
  case True
  from assms obtain cur2 where c2: "c_line (cursor v) = Some cur2"
    by auto
  obtain bo co vo where f: "find_closest_offsets (tabstop_length E)
      (line_data (ls cur2)) (last_cursor_voffset v) = (bo, co, vo)"
    by (cases "find_closest_offsets (tabstop_length E)
      (line_data (ls cur2)) (last_cursor_voffset v)") auto
  let ?v3 = "v\<lparr>cursor := (cursor v)\<lparr>c_boffset := bo\<rparr>,
                 cursor_coffset := co, cursor_voffset := vo, line_voffset := 0\<rparr>"
  obtain lv d where "adjust_line_voffset E ?v3 = ?v3\<lparr>line_voffset := lv, dirty := d\<rparr>"
    using adjust_line_voffset_frame by blast
  then have "cursor_line_changed E ls cur v =
      Some (v\<lparr>cursor := (cursor v)\<lparr>c_boffset := bo\<rparr>, cursor_coffset := co,
              cursor_voffset := vo, line_voffset := lv, dirty := dirty_everything\<rparr>)"
    using True c2 f by (simp add: cursor_line_changed_def)
  then show ?thesis
    by blast
next
  case False
  have "v = v\<lparr>cursor := (cursor v)\<lparr>c_boffset := c_boffset (cursor v)\<rparr>,
      cursor_coffset := cursor_coffset v, cursor_voffset := cursor_voffset v,
      line_voffset := line_voffset v, dirty := dirty v\<rparr>"
    by simp
  moreover have "cursor_line_changed E ls cur v = Some v"
    using False by (simp add: cursor_line_changed_def)
  ultimately show ?thesis
    by metis
qed

lemma adjust_cursor_line_margins:
  assumes d: "dll ls None xs" and h: "1 \<le> height v" and t: "0 \<le> view_vertical_threshold E"
    and T: "1 \<le> top_line_num v"
    and C: "1 \<le> c_line_num (cursor v)" "c_line_num (cursor v) \<le> int (length xs)"
    and cl: "c_line (cursor v) = Some (xs ! nat (c_line_num (cursor v) - 1))"
  shows "\<exists>v'. adjust_cursor_line E ls v = Some v' \<and>
           top_line v' = top_line v \<and> top_line_num v' = top_line_num v \<and>
           1 \<le> c_line_num (cursor v') \<and> c_line_num (cursor v') \<le> int (length xs) \<and>
           c_line (cursor v') = Some (xs ! nat (c_line_num (cursor v') - 1)) \<and>
           c_line_num (cursor v') - top_line_num v' < height v - vertical_threshold E v \<and>
           (vertical_threshold E v \<le> c_line_num (cursor v') - top_line_num v' \<or>
            c_line_num (cursor v') = int (length xs))"
proof -
  define vt where "vt = vertical_threshold E v"
  define co where "co = c_line_num (cursor v) - top_line_num v"
  define hh where "hh = height v"
  define i where "i = nat (c_line_num (cursor v) - 1)"
  from vertical_threshold_bounds [OF h t] have vt: "0 \<le> vt" "2 * vt \<le> hh - 1"
    by (simp_all add: vt_def hh_def)
  have i: "i < length xs"
    using C by (simp add: i_def)
  note nth = dll_nth [OF d i]
  have nx: "line_next (ls (xs ! i)) \<noteq> None \<longleftrightarrow> c_line_num (cursor v) < int (length xs)"
    using nth C by (auto simp: i_def)
  have pv: "line_prev (ls (xs ! i)) \<noteq> None \<longleftrightarrow> 1 < c_line_num (cursor v)"
    using nth C by (auto simp: i_def)
  have "\<exists>v2. (do {
            v1 \<leftarrow> (if line_next (ls (xs ! i)) \<noteq> None \<and> co < vt
                   then move_cursor_line_n_times ls (vt - co) v else Some v);
            (if line_prev (ls (xs ! i)) \<noteq> None \<and> co \<ge> hh - vt
                   then move_cursor_line_n_times ls ((hh - vt) - co - 1) v1 else Some v1)
          }) = Some v2 \<and>
        top_line v2 = top_line v \<and> top_line_num v2 = top_line_num v \<and>
        height v2 = height v \<and>
        1 \<le> c_line_num (cursor v2) \<and> c_line_num (cursor v2) \<le> int (length xs) \<and>
        c_line (cursor v2) = Some (xs ! nat (c_line_num (cursor v2) - 1)) \<and>
        c_line_num (cursor v2) - top_line_num v < hh - vt \<and>
        (vt \<le> c_line_num (cursor v2) - top_line_num v \<or>
         c_line_num (cursor v2) = int (length xs))"
  proof -
    consider (down) "co < vt" "c_line_num (cursor v) < int (length xs)"
      | (up) "hh - vt \<le> co" | (stay) "\<not> hh - vt \<le> co"
          "\<not> (co < vt \<and> c_line_num (cursor v) < int (length xs))"
      by blast
    then show ?thesis
    proof cases
      case down
      define n where "n = vt - co"
      have n: "n \<noteq> 0"
        using down by (simp add: n_def)
      define C' where "C' = clamp_line (length xs) (c_line_num (cursor v) + n)"
      have C': "C' = min (int (length xs)) (top_line_num v + vt)"
        using T vt C by (simp add: C'_def clamp_line_def n_def co_def max_def min_def)
      have nu: "\<not> hh - vt \<le> co"
        using down vt by simp
      let ?v' = "v\<lparr>cursor := (cursor v)\<lparr>c_line := Some (xs ! nat (C' - 1)), c_line_num := C'\<rparr>\<rparr>"
      have "1 \<le> C'" "C' \<le> int (length xs)" "C' - top_line_num v < hh - vt"
        "vt \<le> C' - top_line_num v \<or> C' = int (length xs)"
        using C T vt by (auto simp: C' min_def)
      then show ?thesis
        using move_cursor_line_n_times_dll [OF d C cl n] nx down nu
        by (intro exI [of _ ?v']) (simp add: n_def [symmetric] C'_def [symmetric])
    next
      case up
      define n where "n = (hh - vt) - co - 1"
      have n: "n \<noteq> 0"
        using up by (simp add: n_def)
      define C' where "C' = clamp_line (length xs) (c_line_num (cursor v) + n)"
      have C': "C' = top_line_num v + hh - vt - 1"
        using T C vt up by (simp add: C'_def clamp_line_def n_def co_def max_def min_def)
      have nd: "\<not> co < vt"
        using up vt by simp
      have one: "1 < c_line_num (cursor v)"
        using up vt T by (simp add: co_def)
      let ?v' = "v\<lparr>cursor := (cursor v)\<lparr>c_line := Some (xs ! nat (C' - 1)), c_line_num := C'\<rparr>\<rparr>"
      have "1 \<le> C'" "C' \<le> int (length xs)" "C' - top_line_num v < hh - vt"
        "vt \<le> C' - top_line_num v \<or> C' = int (length xs)"
        using C T vt up by (auto simp: C' co_def)
      then show ?thesis
        using move_cursor_line_n_times_dll [OF d C cl n] pv one up nd
        by (intro exI [of _ ?v']) (simp add: n_def [symmetric] C'_def [symmetric])
    next
      case stay
      have "vt \<le> co \<or> c_line_num (cursor v) = int (length xs)"
        using stay C by auto
      then show ?thesis
        using stay nx C cl
        by (intro exI [of _ v]) (auto simp: co_def)
    qed
  qed
  then obtain v2 where v2: "(do {
            v1 \<leftarrow> (if line_next (ls (xs ! i)) \<noteq> None \<and> co < vt
                   then move_cursor_line_n_times ls (vt - co) v else Some v);
            (if line_prev (ls (xs ! i)) \<noteq> None \<and> co \<ge> hh - vt
                   then move_cursor_line_n_times ls ((hh - vt) - co - 1) v1 else Some v1)
          }) = Some v2"
    and p: "top_line v2 = top_line v" "top_line_num v2 = top_line_num v"
      "1 \<le> c_line_num (cursor v2)" "c_line_num (cursor v2) \<le> int (length xs)"
      "c_line (cursor v2) = Some (xs ! nat (c_line_num (cursor v2) - 1))"
      "c_line_num (cursor v2) - top_line_num v < hh - vt"
      "vt \<le> c_line_num (cursor v2) - top_line_num v \<or> c_line_num (cursor v2) = int (length xs)"
    by blast
  from p(5) have "c_line (cursor v2) \<noteq> None"
    by simp
  from cursor_line_changed_frame [OF this, of E ls "xs ! i"]
  obtain bo co' vo lv dd where f: "cursor_line_changed E ls (xs ! i) v2 =
      Some (v2\<lparr>cursor := (cursor v2)\<lparr>c_boffset := bo\<rparr>, cursor_coffset := co',
              cursor_voffset := vo, line_voffset := lv, dirty := dd\<rparr>)"
    by blast
  let ?A = "if line_next (ls (xs ! i)) \<noteq> None \<and> co < vt
            then move_cursor_line_n_times ls (vt - co) v else Some v"
  let ?B = "\<lambda>v1. if line_prev (ls (xs ! i)) \<noteq> None \<and> co \<ge> hh - vt
            then move_cursor_line_n_times ls ((hh - vt) - co - 1) v1 else Some v1"
  have "adjust_cursor_line E ls v =
      Option.bind (Option.bind ?A ?B) (cursor_line_changed E ls (xs ! i))"
    using cl
    by (simp add: adjust_cursor_line_def Let_def i_def [symmetric] vt_def [symmetric]
        co_def [symmetric] hh_def [symmetric])
  also have "Option.bind ?A ?B = Some v2"
    using v2 .
  finally have "adjust_cursor_line E ls v =
      Some (v2\<lparr>cursor := (cursor v2)\<lparr>c_boffset := bo\<rparr>, cursor_coffset := co',
              cursor_voffset := vo, line_voffset := lv, dirty := dd\<rparr>)"
    using f by simp
  then show ?thesis
    using p by (simp add: vt_def hh_def)
qed

text \<open>The row of the cursor in the view: the \<open>y\<close> of \<open>cursor_position\<close>.\<close>

definition cursor_row :: "'ac view \<Rightarrow> int" where
  "cursor_row v = snd (cursor_position v)"

lemma cursor_row_eq: "cursor_row v = c_line_num (cursor v) - top_line_num v"
  by (simp add: cursor_row_def cursor_position_def Let_def)

text \<open>
  Claim C7. The lines of the buffer are a doubly linked list, the line numbers of the
  top line and of the cursor are positions in it, the view has at least one usable
  row and the configured margin is not negative; \<open>vt\<close> is the margin
  (\<open>vertical_threshold\<close>) and \<open>h\<close> the usable height.
  \<^item> After a cursor move (the top line is the line of its number), \<open>adjust_top_line\<close>
    returns, leaves the cursor alone and keeps the top line on the line of its
    number; the row of the cursor is below \<open>h - vt\<close>, and at least \<open>vt\<close> unless the top
    line is the first line of the buffer. A row at or beyond \<open>h - vt\<close> becomes
    \<open>h - vt - 1\<close>; a row before \<open>vt\<close> becomes \<open>vt\<close> when the cursor has more than \<open>vt\<close>
    lines above it; a row within the margins leaves the view as it is.
  \<^item> After a top-line move (the cursor's line is the line of its number),
    \<open>adjust_cursor_line\<close> returns, leaves the top line alone and keeps the cursor on
    the line of its number; the row is below \<open>h - vt\<close>, and at least \<open>vt\<close> unless the
    cursor is on the last line of the buffer.
  \<^item> With usable height 20 and margin 5: a row of 15 or more becomes row 14, and a
    row below 5 becomes row 5 when the cursor is beyond the fifth line.
\<close>

theorem scroll_margins:
  assumes "dll ls None xs" and "1 \<le> height v" and "0 \<le> view_vertical_threshold E"
    and "1 \<le> top_line_num v" and "top_line_num v \<le> int (length xs)"
    and "1 \<le> c_line_num (cursor v)" and "c_line_num (cursor v) \<le> int (length xs)"
  shows "(top_line v = Some (xs ! nat (top_line_num v - 1)) \<longrightarrow>
           (\<exists>v'. adjust_top_line E ls v = Some v' \<and> cursor v' = cursor v \<and>
              1 \<le> top_line_num v' \<and> top_line_num v' \<le> int (length xs) \<and>
              top_line v' = Some (xs ! nat (top_line_num v' - 1)) \<and>
              cursor_row v' < height v - vertical_threshold E v \<and>
              (vertical_threshold E v \<le> cursor_row v' \<or> top_line_num v' = 1) \<and>
              (height v - vertical_threshold E v \<le> cursor_row v \<longrightarrow>
                 cursor_row v' = height v - vertical_threshold E v - 1) \<and>
              (cursor_row v < vertical_threshold E v \<and>
               vertical_threshold E v < c_line_num (cursor v) \<longrightarrow>
                 cursor_row v' = vertical_threshold E v) \<and>
              (vertical_threshold E v \<le> cursor_row v \<and>
               cursor_row v < height v - vertical_threshold E v \<longrightarrow> v' = v) \<and>
              (height v = 20 \<and> view_vertical_threshold E = 5 \<longrightarrow>
                 (15 \<le> cursor_row v \<longrightarrow> cursor_row v' = 14) \<and>
                 (cursor_row v < 5 \<and> 5 < c_line_num (cursor v) \<longrightarrow> cursor_row v' = 5)))) \<and>
         (c_line (cursor v) = Some (xs ! nat (c_line_num (cursor v) - 1)) \<longrightarrow>
           (\<exists>v'. adjust_cursor_line E ls v = Some v' \<and>
              top_line v' = top_line v \<and> top_line_num v' = top_line_num v \<and>
              1 \<le> c_line_num (cursor v') \<and> c_line_num (cursor v') \<le> int (length xs) \<and>
              c_line (cursor v') = Some (xs ! nat (c_line_num (cursor v') - 1)) \<and>
              cursor_row v' < height v - vertical_threshold E v \<and>
              (vertical_threshold E v \<le> cursor_row v' \<or>
               c_line_num (cursor v') = int (length xs))))"
proof (intro conjI impI)
  assume tl: "top_line v = Some (xs ! nat (top_line_num v - 1))"
  from adjust_top_line_margins [OF assms(1,2,3,4,5) tl assms(6,7)]
  obtain v' where v': "adjust_top_line E ls v = Some v'" "cursor v' = cursor v"
    "1 \<le> top_line_num v'" "top_line_num v' \<le> int (length xs)"
    "top_line v' = Some (xs ! nat (top_line_num v' - 1))"
    "cursor_row v' < height v - vertical_threshold E v"
    "vertical_threshold E v \<le> cursor_row v' \<or> top_line_num v' = 1"
    "height v - vertical_threshold E v \<le> cursor_row v \<longrightarrow>
              cursor_row v' = height v - vertical_threshold E v - 1"
    "cursor_row v < vertical_threshold E v \<and> vertical_threshold E v < c_line_num (cursor v) \<longrightarrow>
              cursor_row v' = vertical_threshold E v"
    "vertical_threshold E v \<le> cursor_row v \<and>
            cursor_row v < height v - vertical_threshold E v \<longrightarrow> v' = v"
    unfolding cursor_row_eq by blast
  have "vertical_threshold E v = 5" if "height v = 20" "view_vertical_threshold E = 5"
    using that by (simp add: vertical_threshold_def Let_def signed_divide_int_def)
  then have "height v = 20 \<and> view_vertical_threshold E = 5 \<longrightarrow>
      (15 \<le> cursor_row v \<longrightarrow> cursor_row v' = 14) \<and>
      (cursor_row v < 5 \<and> 5 < c_line_num (cursor v) \<longrightarrow> cursor_row v' = 5)"
    using v'(8,9) by auto
  with v' show "\<exists>v'. adjust_top_line E ls v = Some v' \<and> cursor v' = cursor v \<and>
              1 \<le> top_line_num v' \<and> top_line_num v' \<le> int (length xs) \<and>
              top_line v' = Some (xs ! nat (top_line_num v' - 1)) \<and>
              cursor_row v' < height v - vertical_threshold E v \<and>
              (vertical_threshold E v \<le> cursor_row v' \<or> top_line_num v' = 1) \<and>
              (height v - vertical_threshold E v \<le> cursor_row v \<longrightarrow>
                 cursor_row v' = height v - vertical_threshold E v - 1) \<and>
              (cursor_row v < vertical_threshold E v \<and>
               vertical_threshold E v < c_line_num (cursor v) \<longrightarrow>
                 cursor_row v' = vertical_threshold E v) \<and>
              (vertical_threshold E v \<le> cursor_row v \<and>
               cursor_row v < height v - vertical_threshold E v \<longrightarrow> v' = v) \<and>
              (height v = 20 \<and> view_vertical_threshold E = 5 \<longrightarrow>
                 (15 \<le> cursor_row v \<longrightarrow> cursor_row v' = 14) \<and>
                 (cursor_row v < 5 \<and> 5 < c_line_num (cursor v) \<longrightarrow> cursor_row v' = 5))"
    by blast
next
  assume cl: "c_line (cursor v) = Some (xs ! nat (c_line_num (cursor v) - 1))"
  from adjust_cursor_line_margins [OF assms(1,2,3,4,6,7) cl]
  show "\<exists>v'. adjust_cursor_line E ls v = Some v' \<and>
              top_line v' = top_line v \<and> top_line_num v' = top_line_num v \<and>
              1 \<le> c_line_num (cursor v') \<and> c_line_num (cursor v') \<le> int (length xs) \<and>
              c_line (cursor v') = Some (xs ! nat (c_line_num (cursor v') - 1)) \<and>
              cursor_row v' < height v - vertical_threshold E v \<and>
              (vertical_threshold E v \<le> cursor_row v' \<or>
               c_line_num (cursor v') = int (length xs))"
    unfolding cursor_row_eq by blast
qed

text \<open>
  Thirty empty lines at the addresses 0 to 29, and a view of twenty usable rows on
  them, its top line the first line.
\<close>

definition store30 :: "lref \<Rightarrow> line" where
  "store30 i = \<lparr>line_data = [],
     line_next = (if i < 29 then Some (Suc i) else None),
     line_prev = (if 0 < i \<and> i \<le> 29 then Some (i - 1) else None)\<rparr>"

definition view20 :: "int \<Rightarrow> int \<Rightarrow> unit view" where
  "view20 t c = \<lparr>cursor = \<lparr>c_line = Some (nat (c - 1)), c_line_num = c, c_boffset = 0\<rparr>,
     top_line = Some (nat (t - 1)), top_line_num = t, cursor_coffset = 0, cursor_voffset = 0,
     line_voffset = 0, last_cursor_voffset = 0,
     uibuf_Width = 80, uibuf_Height = 21, dirty = 0, oneline = False, ac = None,
     last_vcommand_class = vcommand_class_none\<rparr>"

theorem scroll_margins_witness:
  "dll store30 None [0..<30] \<and> height (view20 1 20) = 20 \<and>
   view_vertical_threshold spec_env = 5 \<and> cursor_row (view20 1 20) = 19 \<and>
   (\<exists>v'. adjust_top_line spec_env store30 (view20 1 20) = Some v' \<and>
      top_line v' = Some 5 \<and> top_line_num v' = 6 \<and> cursor_row v' = 14) \<and>
   cursor_row (view20 10 11) = 1 \<and>
   (\<exists>v'. adjust_cursor_line spec_env store30 (view20 10 11) = Some v' \<and>
      top_line_num v' = 10 \<and> 5 \<le> cursor_row v' \<and> cursor_row v' < 15)"
proof -
  have d: "dll store30 None [0..<30]"
    by code_simp
  have h: "height (view20 t c) = 20" for t c
    by (simp add: height_def view20_def)
  have e: "view_vertical_threshold spec_env = 5"
    by (simp add: spec_env_def)
  have vt: "vertical_threshold spec_env (view20 t c) = 5" for t c
    by (simp add: vertical_threshold_def Let_def h e signed_divide_int_def)
  have r: "cursor_row (view20 t c) = c - t" for t c
    by (simp add: cursor_row_eq view20_def)
  have len: "length [0..<30] = 30"
    by simp
  have "top_line (view20 1 20) = Some ([0..<30] ! nat (top_line_num (view20 1 20) - 1))"
    by (simp add: view20_def)
  with scroll_margins [of store30 "[0..<30]" "view20 1 20" spec_env] d
  obtain v' where a: "adjust_top_line spec_env store30 (view20 1 20) = Some v'"
      "top_line v' = Some ([0..<30] ! nat (top_line_num v' - 1))"
      "cursor v' = cursor (view20 1 20)" "cursor_row v' = 14"
      "1 \<le> top_line_num v'" "top_line_num v' \<le> 30"
    unfolding h e r vt len by (auto simp add: view20_def)
  from a(3,4) have n: "top_line_num v' = 6"
    by (simp add: cursor_row_eq view20_def)
  with a(2) have "top_line v' = Some 5"
    by simp
  with a n have A: "\<exists>v'. adjust_top_line spec_env store30 (view20 1 20) = Some v' \<and>
      top_line v' = Some 5 \<and> top_line_num v' = 6 \<and> cursor_row v' = 14"
    by blast
  have "c_line (cursor (view20 10 11)) =
      Some ([0..<30] ! nat (c_line_num (cursor (view20 10 11)) - 1))"
    by (simp add: view20_def)
  with scroll_margins [of store30 "[0..<30]" "view20 10 11" spec_env] d
  obtain v' where b: "adjust_cursor_line spec_env store30 (view20 10 11) = Some v'"
      "top_line_num v' = top_line_num (view20 10 11)"
      "cursor_row v' < 15" "5 \<le> cursor_row v' \<or> c_line_num (cursor v') = 30"
    unfolding h e r vt len by (auto simp add: view20_def)
  from b(2) have t: "top_line_num v' = 10"
    by (simp add: view20_def)
  with b(3,4) have "5 \<le> cursor_row v'"
    by (auto simp add: cursor_row_eq)
  with b t have B: "\<exists>v'. adjust_cursor_line spec_env store30 (view20 10 11) = Some v' \<and>
      top_line_num v' = 10 \<and> 5 \<le> cursor_row v' \<and> cursor_row v' < 15"
    by blast
  from d h e r A B show ?thesis
    by simp
qed

text \<open>
  A view of the size \<open>new_view\<close> creates (\<open>tulib.NewBuffer(1, 1)\<close>) has no usable row:
  its height is 0 and so is its margin. There \<open>adjust_top_line\<close> moves the top line
  one line below the cursor, although the top line had a next line and the cursor was
  on the top line: the row of the cursor becomes -1, which is below the margin.
\<close>

definition view_1x1 :: "unit view" where
  "view_1x1 = (view20 1 1)\<lparr>uibuf_Width := 1, uibuf_Height := 1\<rparr>"

theorem scroll_margins_counterexample:
  "height view_1x1 = 0 \<and> vertical_threshold spec_env view_1x1 = 0 \<and>
   cursor_row view_1x1 = 0 \<and> line_next (store30 0) = Some 1 \<and>
   adjust_top_line spec_env store30 view_1x1 =
     Some (view_1x1\<lparr>top_line := Some 1, top_line_num := 2, dirty := dirty_everything\<rparr>) \<and>
   map_option cursor_row (adjust_top_line spec_env store30 view_1x1) = Some (- 1) \<and>
   \<not> (vertical_threshold spec_env view_1x1 \<le> - 1 \<and>
      - 1 < height view_1x1 - vertical_threshold spec_env view_1x1)"
  by code_simp

section \<open>The history under the actions of a group\<close>

lemma frame_keeps [simp]:
  "history (buf (frame w w')) = history (buf w)"
  "groups (frame w w') = groups w"
  "groups_new (frame w w') = groups_new w"
  "view (frame w w') = view w"
  "sr (frame w w') = sr w"
  by (simp_all add: frame_def)

lemma revert_action_keeps [simp]:
  "history (buf (revert_action E a w)) = history (buf w)"
  "groups (revert_action E a w) = groups w"
  "groups_new (revert_action E a w) = groups_new w"
  "view (revert_action E a w) = view w"
  "sr (revert_action E a w) = sr w"
  by (simp_all add: revert_action_def)

lemma apply_action_keeps [simp]:
  "history (buf (apply_action E a w)) = history (buf w)"
  "groups (apply_action E a w) = groups w"
  "groups_new (apply_action E a w) = groups_new w"
  "view (apply_action E a w) = view w"
  "sr (apply_action E a w) = sr w"
  by (simp_all add: apply_action_def)

text \<open>
  The actions of a group reverted "in reverse order" and applied "in recorded order",
  in the words of the specification.
\<close>

definition revert_all :: "('ac, 'x) env \<Rightarrow> action list \<Rightarrow> ('ac, 'x) world \<Rightarrow> ('ac, 'x) world" where
  "revert_all E as w = fold (revert_action E) (rev as) w"

definition apply_all :: "('ac, 'x) env \<Rightarrow> action list \<Rightarrow> ('ac, 'x) world \<Rightarrow> ('ac, 'x) world" where
  "apply_all E as w = fold (apply_action E) as w"

lemma fold_revert_keeps:
  "history (buf (fold (revert_action E) as w)) = history (buf w) \<and>
   groups (fold (revert_action E) as w) = groups w \<and>
   groups_new (fold (revert_action E) as w) = groups_new w \<and>
   view (fold (revert_action E) as w) = view w \<and>
   sr (fold (revert_action E) as w) = sr w"
  by (induction as arbitrary: w) simp_all

lemma fold_apply_keeps:
  "history (buf (fold (apply_action E) as w)) = history (buf w) \<and>
   groups (fold (apply_action E) as w) = groups w \<and>
   groups_new (fold (apply_action E) as w) = groups_new w \<and>
   view (fold (apply_action E) as w) = view w \<and>
   sr (fold (apply_action E) as w) = sr w"
  by (induction as arbitrary: w) simp_all

lemma revert_all_keeps [simp]:
  "history (buf (revert_all E as w)) = history (buf w)"
  "groups (revert_all E as w) = groups w"
  "groups_new (revert_all E as w) = groups_new w"
  "view (revert_all E as w) = view w"
  "sr (revert_all E as w) = sr w"
  by (simp_all add: revert_all_def fold_revert_keeps)

lemma apply_all_keeps [simp]:
  "history (buf (apply_all E as w)) = history (buf w)"
  "groups (apply_all E as w) = groups w"
  "groups_new (apply_all E as w) = groups_new w"
  "view (apply_all E as w) = view w"
  "sr (apply_all E as w) = sr w"
  by (simp_all add: apply_all_def fold_apply_keeps)

lemma undo_loop_fold:
  assumes "history (buf w) = Some h" and "k \<le> length (g_actions (groups w h))"
  shows "undo_loop E (int k - 1) w =
           Some (fold (revert_action E) (rev (take k (g_actions (groups w h)))) w)"
  using assms
proof (induction k arbitrary: w)
  case 0
  show ?case
    by (subst undo_loop.simps) simp
next
  case (Suc k)
  let ?acts = "g_actions (groups w h)"
  let ?w = "revert_action E (?acts ! k) w"
  from Suc.prems have k: "k < length ?acts"
    by simp
  have "undo_loop E (int (Suc k) - 1) w = undo_loop E (int k - 1) ?w"
    using Suc.prems k by (subst undo_loop.simps) (simp add: Let_def)
  also have "\<dots> = Some (fold (revert_action E) (rev (take k (g_actions (groups ?w h)))) ?w)"
    using Suc.prems k by (intro Suc.IH) simp_all
  also have "\<dots> = Some (fold (revert_action E) (rev (take (Suc k) ?acts)) w)"
    using k by (simp add: take_Suc_conv_app_nth)
  finally show ?case .
qed

lemma undo_loop_revert_all:
  assumes "history (buf w) = Some h"
  shows "undo_loop E (int (length (g_actions (groups w h))) - 1) w =
           Some (revert_all E (g_actions (groups w h)) w)"
  using undo_loop_fold [OF assms order_refl, of E] by (simp add: revert_all_def)

lemma redo_loop_fold:
  assumes "history (buf w) = Some h" and "i \<le> length (g_actions (groups w h))"
  shows "redo_loop E (int (length (g_actions (groups w h)))) (int i) w =
           Some (fold (apply_action E) (drop i (g_actions (groups w h))) w)"
  using assms
proof (induction "length (g_actions (groups w h)) - i" arbitrary: w i)
  case 0
  then show ?case
    by (subst redo_loop.simps) simp
next
  case (Suc d)
  let ?acts = "g_actions (groups w h)"
  let ?w = "apply_action E (?acts ! i) w"
  from Suc have i: "i < length ?acts"
    by simp
  have "redo_loop E (int (length ?acts)) (int i) w =
        redo_loop E (int (length (g_actions (groups ?w h)))) (int (Suc i)) ?w"
    using Suc.prems i by (subst redo_loop.simps) (simp add: Let_def add.commute)
  also have "\<dots> = Some (fold (apply_action E) (drop (Suc i) (g_actions (groups ?w h))) ?w)"
    using Suc i by (intro Suc.hyps(1)) simp_all
  also have "\<dots> = Some (fold (apply_action E) (drop i ?acts) w)"
    using i by (simp add: Cons_nth_drop_Suc [symmetric])
  finally show ?case .
qed

lemma redo_loop_apply_all:
  assumes "history (buf w) = Some h"
  shows "redo_loop E (int (length (g_actions (groups w h)))) 0 w =
           Some (apply_all E (g_actions (groups w h)) w)"
  using redo_loop_fold [OF assms, of 0 E] by (simp add: apply_all_def)

text \<open>
  \<open>finalize_action_group\<close> returns whenever the buffer has a history. It changes only
  the groups: a group that is allocated (\<open>new(action_group)\<close> is a new address) keeps
  its actions, its predecessor and its "before" snapshot.
\<close>

lemma finalize_action_group_keeps:
  assumes "history (buf w) = Some h"
  shows "\<exists>w1. finalize_action_group w = Some w1 \<and> buf w1 = buf w \<and> view w1 = view w \<and>
           sr w1 = sr w \<and> lines w1 = lines w \<and> others w1 = others w \<and>
           lines_new w1 = lines_new w \<and>
           (\<forall>g. g < groups_new w \<longrightarrow>
              g_actions (groups w1 g) = g_actions (groups w g) \<and>
              g_prev (groups w1 g) = g_prev (groups w g) \<and>
              g_before (groups w1 g) = g_before (groups w g)) \<and>
           g_next (groups w1 h) \<noteq> None \<and>
           (g_next (groups w h) \<noteq> None \<longrightarrow> w1 = w)"
  using assms
  by (auto simp: finalize_action_group_def new_action_group_def set_group_def Let_def)

lemma with_view_keeps:
  assumes "with_view f w = Some w'"
  shows "buf w' = buf w \<and> groups w' = groups w \<and> groups_new w' = groups_new w \<and>
         lines w' = lines w \<and> lines_new w' = lines_new w \<and> sr w' = sr w \<and>
         others w' = others w \<and> f (lines w) (view w) = Some (view w')"
  using assms by (auto simp: with_view_def)

text \<open>The effect of \<open>finalize_action_group\<close> on a history pointer that is allocated.\<close>

lemma finalize_action_group_effect:
  assumes "history (buf w) = Some h" and "h < groups_new w"
  shows "finalize_action_group w =
           Some (if g_next (groups w h) = None
                 then w\<lparr>groups := (groups w)
                          (groups_new w := zero_group,
                           h := (groups w h)\<lparr>g_next := Some (groups_new w),
                                               g_after := cursor (view w)\<rparr>),
                        groups_new := Suc (groups_new w)\<rparr>
                 else w)"
  using assms
  by (simp add: finalize_action_group_def new_action_group_def set_group_def Let_def)

section \<open>Claim C2: undo\<close>

text \<open>
  Claim C2. The buffer has a history pointer \<open>h\<close>, an allocated group.
  \<^item> At the sentinel (\<open>h\<close> has no predecessor) \<open>undo\<close> returns the world as it is:
    buffer, history and cursor are unchanged.
  \<^item> Otherwise \<open>undo\<close> finalizes the open group (\<open>w1\<close>): when \<open>h\<close> has no successor, a
    new empty group is made its successor and the cursor of the view its "after"
    snapshot; when it has one, nothing changes. Then \<open>undo\<close> reverts the actions of
    \<open>h\<close> in reverse recording order (\<open>revert_all\<close>), moves the cursor to the "before"
    snapshot of \<open>h\<close> and sets the history pointer to the predecessor of \<open>h\<close>. When it
    returns, the history pointer is the predecessor, the cursor is on the line of the
    snapshot, with its number and (when the snapshot has one) its byte offset, the
    lines are the ones the reverts left, and the groups are the finalized ones: \<open>h\<close>
    has a successor, and if it had none before, the successor is the new empty group
    and the "after" snapshot of \<open>h\<close> is the cursor the view had. It returns when the
    view has a top line and the snapshot has a byte offset or a line.
\<close>

theorem undo_reverts_current_group:
  assumes "history (buf w) = Some h" and "h < groups_new w"
  shows "(g_prev (groups w h) = None \<longrightarrow> undo E w = Some w) \<and>
         (g_prev (groups w h) \<noteq> None \<longrightarrow>
            (\<exists>w1. finalize_action_group w = Some w1 \<and>
               (g_next (groups w h) = None \<longrightarrow>
                  w1 = w\<lparr>groups := (groups w)
                            (groups_new w := zero_group,
                             h := (groups w h)\<lparr>g_next := Some (groups_new w),
                                                 g_after := cursor (view w)\<rparr>),
                          groups_new := Suc (groups_new w)\<rparr>) \<and>
               (g_next (groups w h) \<noteq> None \<longrightarrow> w1 = w) \<and>
               undo E w =
                 Option.bind
                   (with_view (\<lambda>ls. move_cursor_to E ls (g_before (groups w h)))
                      (revert_all E (g_actions (groups w h)) w1))
                   (\<lambda>w3. Some (w3\<lparr>view := (view w3)\<lparr>last_cursor_voffset :=
                                                      cursor_voffset (view w3)\<rparr>,
                                  buf := (buf w3)\<lparr>history := g_prev (groups w h)\<rparr>\<rparr>)) \<and>
               (\<forall>w'. undo E w = Some w' \<longrightarrow>
                  history (buf w') = g_prev (groups w h) \<and>
                  lines w' = lines (revert_all E (g_actions (groups w h)) w1) \<and>
                  c_line (cursor (view w')) = c_line (g_before (groups w h)) \<and>
                  c_line_num (cursor (view w')) = c_line_num (g_before (groups w h)) \<and>
                  (0 \<le> c_boffset (g_before (groups w h)) \<longrightarrow>
                     c_boffset (cursor (view w')) = c_boffset (g_before (groups w h))) \<and>
                  groups w' = groups w1 \<and> groups_new w' = groups_new w1 \<and>
                  g_next (groups w' h) \<noteq> None \<and>
                  (g_next (groups w h) = None \<longrightarrow>
                     g_next (groups w' h) = Some (groups_new w) \<and>
                     g_after (groups w' h) = cursor (view w) \<and>
                     groups w' (groups_new w) = zero_group \<and>
                     groups_new w' = Suc (groups_new w)) \<and>
                  (g_next (groups w h) \<noteq> None \<longrightarrow>
                     groups w' = groups w \<and> groups_new w' = groups_new w)) \<and>
               (top_line (view w) \<noteq> None \<and>
                (0 \<le> c_boffset (g_before (groups w h)) \<or>
                 c_line (g_before (groups w h)) \<noteq> None) \<longrightarrow> undo E w \<noteq> None)))"
proof (intro conjI impI)
  assume "g_prev (groups w h) = None"
  with assms(1) show "undo E w = Some w"
    by (simp add: undo_def)
next
  assume p: "g_prev (groups w h) \<noteq> None"
  let ?acts = "g_actions (groups w h)"
  let ?before = "g_before (groups w h)"
  let ?open = "w\<lparr>groups := (groups w)
                   (groups_new w := zero_group,
                    h := (groups w h)\<lparr>g_next := Some (groups_new w),
                                        g_after := cursor (view w)\<rparr>),
                 groups_new := Suc (groups_new w)\<rparr>"
  define w1 where "w1 = (if g_next (groups w h) = None then ?open else w)"
  have fin: "finalize_action_group w = Some w1"
    using finalize_action_group_effect [OF assms] by (simp add: w1_def)
  have e1: "g_next (groups w h) = None \<longrightarrow> w1 = ?open"
    and e2: "g_next (groups w h) \<noteq> None \<longrightarrow> w1 = w"
    by (simp_all add: w1_def)
  have w1: "buf w1 = buf w" "view w1 = view w"
    "g_actions (groups w1 h) = ?acts" "g_prev (groups w1 h) = g_prev (groups w h)"
    "g_before (groups w1 h) = ?before"
    by (simp_all add: w1_def)
  have gn: "g_next (groups w1 h) \<noteq> None"
    by (simp add: w1_def)
  have open_effect: "g_next (groups w h) = None \<longrightarrow>
      g_next (groups w1 h) = Some (groups_new w) \<and> g_after (groups w1 h) = cursor (view w) \<and>
      groups w1 (groups_new w) = zero_group \<and> groups_new w1 = Suc (groups_new w)"
    using assms(2) by (simp add: w1_def)
  define w2 where "w2 = revert_all E ?acts w1"
  have h1: "history (buf w1) = Some h"
    using w1(1) assms(1) by simp
  have loop: "undo_loop E (int (length (g_actions (groups w1 h))) - 1) w1 = Some w2"
    using undo_loop_revert_all [OF h1, of E] w1(3) by (simp add: w2_def)
  have w2: "history (buf w2) = Some h" "groups w2 = groups w1" "view w2 = view w"
    "groups_new w2 = groups_new w1"
    using h1 w1(2) by (simp_all add: w2_def)
  let ?K = "\<lambda>w3. Some (w3\<lparr>view := (view w3)\<lparr>last_cursor_voffset := cursor_voffset (view w3)\<rparr>,
                         buf := (buf w3)\<lparr>history := g_prev (groups w h)\<rparr>\<rparr>)"
  let ?M = "with_view (\<lambda>ls. move_cursor_to E ls ?before) w2"
  have tail: "Option.bind ?M (\<lambda>w3. Option.bind (history (buf w3))
                (\<lambda>h4. Some (w3\<lparr>view := (view w3)\<lparr>last_cursor_voffset := cursor_voffset (view w3)\<rparr>,
                              buf := (buf w3)\<lparr>history := g_prev (groups w3 h4)\<rparr>\<rparr>)))
              = Option.bind ?M ?K"
  proof (cases ?M)
    case None
    then show ?thesis
      by simp
  next
    case (Some w3)
    from with_view_keeps [OF Some] have "buf w3 = buf w2" "groups w3 = groups w2"
      by simp_all
    with w2 w1(4) Some show ?thesis
      by simp
  qed
  from p obtain q where q: "g_prev (groups w h) = Some q"
    by blast
  have "undo E w = Option.bind ?M (\<lambda>w3. Option.bind (history (buf w3))
                (\<lambda>h4. Some (w3\<lparr>view := (view w3)\<lparr>last_cursor_voffset := cursor_voffset (view w3)\<rparr>,
                              buf := (buf w3)\<lparr>history := g_prev (groups w3 h4)\<rparr>\<rparr>)))"
    using assms(1) q fin h1 loop w2(1,2) w1(5)
    by (simp add: undo_def Let_def)
  with tail have eq: "undo E w = Option.bind ?M ?K"
    by simp
  have post: "history (buf w') = g_prev (groups w h) \<and>
              lines w' = lines w2 \<and>
              c_line (cursor (view w')) = c_line ?before \<and>
              c_line_num (cursor (view w')) = c_line_num ?before \<and>
              (0 \<le> c_boffset ?before \<longrightarrow> c_boffset (cursor (view w')) = c_boffset ?before) \<and>
              groups w' = groups w1 \<and> groups_new w' = groups_new w1 \<and>
              g_next (groups w' h) \<noteq> None \<and>
              (g_next (groups w h) = None \<longrightarrow>
                 g_next (groups w' h) = Some (groups_new w) \<and>
                 g_after (groups w' h) = cursor (view w) \<and>
                 groups w' (groups_new w) = zero_group \<and>
                 groups_new w' = Suc (groups_new w)) \<and>
              (g_next (groups w h) \<noteq> None \<longrightarrow>
                 groups w' = groups w \<and> groups_new w' = groups_new w)"
    if "undo E w = Some w'" for w'
  proof -
    from that eq obtain w3 where w3: "?M = Some w3"
      and w': "w' = w3\<lparr>view := (view w3)\<lparr>last_cursor_voffset := cursor_voffset (view w3)\<rparr>,
                       buf := (buf w3)\<lparr>history := g_prev (groups w h)\<rparr>\<rparr>"
      by (auto simp: bind_eq_Some_conv)
    from with_view_keeps [OF w3]
    have k: "lines w3 = lines w2" "move_cursor_to E (lines w2) ?before (view w2) = Some (view w3)"
      "groups w3 = groups w2" "groups_new w3 = groups_new w2"
      by simp_all
    have g: "groups w' = groups w1" "groups_new w' = groups_new w1"
      using k(3,4) w2(2,4) by (simp_all add: w')
    have "history (buf w') = g_prev (groups w h) \<and>
              lines w' = lines w2 \<and>
              c_line (cursor (view w')) = c_line ?before \<and>
              c_line_num (cursor (view w')) = c_line_num ?before \<and>
              (0 \<le> c_boffset ?before \<longrightarrow> c_boffset (cursor (view w')) = c_boffset ?before)"
      using move_cursor_to_cursor [OF k(2)] k(1) by (simp add: w')
    moreover have "g_next (groups w' h) \<noteq> None"
      using gn g(1) by simp
    moreover have "g_next (groups w h) = None \<longrightarrow>
                 g_next (groups w' h) = Some (groups_new w) \<and>
                 g_after (groups w' h) = cursor (view w) \<and>
                 groups w' (groups_new w) = zero_group \<and>
                 groups_new w' = Suc (groups_new w)"
      using open_effect g by simp
    moreover have "g_next (groups w h) \<noteq> None \<longrightarrow>
                 groups w' = groups w \<and> groups_new w' = groups_new w"
      using e2 g by simp
    ultimately show ?thesis
      using g by blast
  qed
  have ret: "undo E w \<noteq> None"
    if "top_line (view w) \<noteq> None \<and> (0 \<le> c_boffset ?before \<or> c_line ?before \<noteq> None)"
  proof -
    from that have "move_cursor_to E (lines w2) ?before (view w2) \<noteq> None"
      by (intro move_cursor_to_returns) (simp_all add: w2(3))
    then have "?M \<noteq> None"
      by (simp add: with_view_def)
    with eq show ?thesis
      by (auto simp: bind_eq_None_conv)
  qed
  have postA: "\<forall>w'. undo E w = Some w' \<longrightarrow>
                  history (buf w') = g_prev (groups w h) \<and>
                  lines w' = lines (revert_all E (g_actions (groups w h)) w1) \<and>
                  c_line (cursor (view w')) = c_line (g_before (groups w h)) \<and>
                  c_line_num (cursor (view w')) = c_line_num (g_before (groups w h)) \<and>
                  (0 \<le> c_boffset (g_before (groups w h)) \<longrightarrow>
                     c_boffset (cursor (view w')) = c_boffset (g_before (groups w h))) \<and>
                  groups w' = groups w1 \<and> groups_new w' = groups_new w1 \<and>
                  g_next (groups w' h) \<noteq> None \<and>
                  (g_next (groups w h) = None \<longrightarrow>
                     g_next (groups w' h) = Some (groups_new w) \<and>
                     g_after (groups w' h) = cursor (view w) \<and>
                     groups w' (groups_new w) = zero_group \<and>
                     groups_new w' = Suc (groups_new w)) \<and>
                  (g_next (groups w h) \<noteq> None \<longrightarrow>
                     groups w' = groups w \<and> groups_new w' = groups_new w)"
    using post unfolding w2_def by blast
  have retA: "top_line (view w) \<noteq> None \<and>
                (0 \<le> c_boffset (g_before (groups w h)) \<or>
                 c_line (g_before (groups w h)) \<noteq> None) \<longrightarrow> undo E w \<noteq> None"
    using ret by blast
  from fin e1 e2 eq [unfolded w2_def] postA retA
  have "finalize_action_group w = Some w1 \<and>
               (g_next (groups w h) = None \<longrightarrow>
                  w1 = w\<lparr>groups := (groups w)
                            (groups_new w := zero_group,
                             h := (groups w h)\<lparr>g_next := Some (groups_new w),
                                                 g_after := cursor (view w)\<rparr>),
                          groups_new := Suc (groups_new w)\<rparr>) \<and>
               (g_next (groups w h) \<noteq> None \<longrightarrow> w1 = w) \<and>
               undo E w =
                 Option.bind
                   (with_view (\<lambda>ls. move_cursor_to E ls (g_before (groups w h)))
                      (revert_all E (g_actions (groups w h)) w1))
                   (\<lambda>w3. Some (w3\<lparr>view := (view w3)\<lparr>last_cursor_voffset :=
                                                      cursor_voffset (view w3)\<rparr>,
                                  buf := (buf w3)\<lparr>history := g_prev (groups w h)\<rparr>\<rparr>)) \<and>
               (\<forall>w'. undo E w = Some w' \<longrightarrow>
                  history (buf w') = g_prev (groups w h) \<and>
                  lines w' = lines (revert_all E (g_actions (groups w h)) w1) \<and>
                  c_line (cursor (view w')) = c_line (g_before (groups w h)) \<and>
                  c_line_num (cursor (view w')) = c_line_num (g_before (groups w h)) \<and>
                  (0 \<le> c_boffset (g_before (groups w h)) \<longrightarrow>
                     c_boffset (cursor (view w')) = c_boffset (g_before (groups w h))) \<and>
                  groups w' = groups w1 \<and> groups_new w' = groups_new w1 \<and>
                  g_next (groups w' h) \<noteq> None \<and>
                  (g_next (groups w h) = None \<longrightarrow>
                     g_next (groups w' h) = Some (groups_new w) \<and>
                     g_after (groups w' h) = cursor (view w) \<and>
                     groups w' (groups_new w) = zero_group \<and>
                     groups_new w' = Suc (groups_new w)) \<and>
                  (g_next (groups w h) \<noteq> None \<longrightarrow>
                     groups w' = groups w \<and> groups_new w' = groups_new w)) \<and>
               (top_line (view w) \<noteq> None \<and>
                (0 \<le> c_boffset (g_before (groups w h)) \<or>
                 c_line (g_before (groups w h)) \<noteq> None) \<longrightarrow> undo E w \<noteq> None)"
    by - (intro conjI, assumption+)
  then show "\<exists>w1. finalize_action_group w = Some w1 \<and>
               (g_next (groups w h) = None \<longrightarrow>
                  w1 = w\<lparr>groups := (groups w)
                            (groups_new w := zero_group,
                             h := (groups w h)\<lparr>g_next := Some (groups_new w),
                                                 g_after := cursor (view w)\<rparr>),
                          groups_new := Suc (groups_new w)\<rparr>) \<and>
               (g_next (groups w h) \<noteq> None \<longrightarrow> w1 = w) \<and>
               undo E w =
                 Option.bind
                   (with_view (\<lambda>ls. move_cursor_to E ls (g_before (groups w h)))
                      (revert_all E (g_actions (groups w h)) w1))
                   (\<lambda>w3. Some (w3\<lparr>view := (view w3)\<lparr>last_cursor_voffset :=
                                                      cursor_voffset (view w3)\<rparr>,
                                  buf := (buf w3)\<lparr>history := g_prev (groups w h)\<rparr>\<rparr>)) \<and>
               (\<forall>w'. undo E w = Some w' \<longrightarrow>
                  history (buf w') = g_prev (groups w h) \<and>
                  lines w' = lines (revert_all E (g_actions (groups w h)) w1) \<and>
                  c_line (cursor (view w')) = c_line (g_before (groups w h)) \<and>
                  c_line_num (cursor (view w')) = c_line_num (g_before (groups w h)) \<and>
                  (0 \<le> c_boffset (g_before (groups w h)) \<longrightarrow>
                     c_boffset (cursor (view w')) = c_boffset (g_before (groups w h))) \<and>
                  groups w' = groups w1 \<and> groups_new w' = groups_new w1 \<and>
                  g_next (groups w' h) \<noteq> None \<and>
                  (g_next (groups w h) = None \<longrightarrow>
                     g_next (groups w' h) = Some (groups_new w) \<and>
                     g_after (groups w' h) = cursor (view w) \<and>
                     groups w' (groups_new w) = zero_group \<and>
                     groups_new w' = Suc (groups_new w)) \<and>
                  (g_next (groups w h) \<noteq> None \<longrightarrow>
                     groups w' = groups w \<and> groups_new w' = groups_new w)) \<and>
               (top_line (view w) \<noteq> None \<and>
                (0 \<le> c_boffset (g_before (groups w h)) \<or>
                 c_line (g_before (groups w h)) \<noteq> None) \<longrightarrow> undo E w \<noteq> None)"
    by (rule exI [where x = w1])
qed

text \<open>
  The world two insertions (\<open>a\<close>, then \<open>b\<close>) make of the empty buffer: one line
  \<open>ab\<close>, the sentinel group 0 and the group 1 with the two actions, still open.
\<close>

definition groups_ab :: "gref \<Rightarrow> action_group" where
  "groups_ab g =
     (if g = 0 then zero_group\<lparr>g_next := Some 1\<rparr>
      else if g = 1 then
        \<lparr>g_actions =
           [\<lparr>a_what = action_type_insert, a_data = [0x61],
              a_cursor = \<lparr>c_line = Some 0, c_line_num = 1, c_boffset = 0\<rparr>, a_lines = []\<rparr>,
            \<lparr>a_what = action_type_insert, a_data = [0x62],
              a_cursor = \<lparr>c_line = Some 0, c_line_num = 1, c_boffset = 1\<rparr>, a_lines = []\<rparr>],
         g_next = None, g_prev = Some 0,
         g_before = \<lparr>c_line = Some 0, c_line_num = 1, c_boffset = 0\<rparr>,
         g_after = zero_cursor\<rparr>
      else zero_group)"

definition world_ab :: "(unit, unit) world" where
  "world_ab =
     \<lparr>lines = (\<lambda>l. if l = 0 then zero_line\<lparr>line_data := [0x61, 0x62]\<rparr> else zero_line),
      lines_new = 1, groups = groups_ab, groups_new = 2,
      buf = zero_buffer\<lparr>first_line := Some 0, last_line := Some 0, bytes_n := 2,
              history := Some 1,
              loc := (loc zero_buffer)\<lparr>top_line := Some 0, top_line_num := 1,
                cursor := \<lparr>c_line = Some 0, c_line_num = 1, c_boffset = 0\<rparr>\<rparr>\<rparr>,
      view = \<lparr>cursor = \<lparr>c_line = Some 0, c_line_num = 1, c_boffset = 2\<rparr>,
               top_line = Some 0, top_line_num = 1, cursor_coffset = 2, cursor_voffset = 2,
               line_voffset = 0, last_cursor_voffset = 2,
               uibuf_Width = 80, uibuf_Height = 21, dirty = dirty_everything,
               oneline = False, ac = None, last_vcommand_class = vcommand_class_insertion\<rparr>,
      others = (), sr = []\<rparr>"

theorem undo_reverts_current_group_witness:
  "history (buf world_ab) = Some 1 \<and> 1 < groups_new world_ab \<and>
   g_prev (groups world_ab 1) = Some 0 \<and> g_next (groups world_ab 1) = None \<and>
   groups_new world_ab = 2 \<and> length (g_actions (groups world_ab 1)) = 2 \<and>
   line_data (lines world_ab 0) = [0x61, 0x62] \<and>
   (\<exists>w'. undo spec_env world_ab = Some w' \<and> history (buf w') = Some 0 \<and>
      c_line (cursor (view w')) = Some 0 \<and> c_line_num (cursor (view w')) = 1 \<and>
      c_boffset (cursor (view w')) = 0 \<and> line_data (lines w' 0) = [] \<and>
      g_next (groups w' 1) = Some 2 \<and>
      g_after (groups w' 1) = \<lparr>c_line = Some 0, c_line_num = 1, c_boffset = 2\<rparr> \<and>
      groups w' 2 = zero_group \<and> groups_new w' = 3) \<and>
   history (buf world0) = Some 0 \<and> 0 < groups_new world0 \<and>
   g_prev (groups world0 0) = None \<and> undo spec_env world0 = Some world0"
proof -
  have a: "history (buf world_ab) = Some 1" "1 < groups_new world_ab"
    "g_prev (groups world_ab 1) = Some 0" "length (g_actions (groups world_ab 1)) = 2"
    "line_data (lines world_ab 0) = [0x61, 0x62]"
    "g_before (groups world_ab 1) = \<lparr>c_line = Some 0, c_line_num = 1, c_boffset = 0\<rparr>"
    "top_line (view world_ab) = Some 0" "g_next (groups world_ab 1) = None"
    "groups_new world_ab = 2"
    "cursor (view world_ab) = \<lparr>c_line = Some 0, c_line_num = 1, c_boffset = 2\<rparr>"
    by code_simp+
  have l: "case undo spec_env world_ab of None \<Rightarrow> True
           | Some w' \<Rightarrow> line_data (lines w' 0) = []"
    by code_simp
  have ne: "g_prev (groups world_ab 1) \<noteq> None"
    using a(3) by simp
  note t = undo_reverts_current_group [OF a(1,2), of spec_env, THEN conjunct2, THEN mp, OF ne]
  from t obtain w1 where
    p: "\<forall>w'. undo spec_env world_ab = Some w' \<longrightarrow>
                  history (buf w') = g_prev (groups world_ab 1) \<and>
                  lines w' = lines (revert_all spec_env (g_actions (groups world_ab 1)) w1) \<and>
                  c_line (cursor (view w')) = c_line (g_before (groups world_ab 1)) \<and>
                  c_line_num (cursor (view w')) = c_line_num (g_before (groups world_ab 1)) \<and>
                  (0 \<le> c_boffset (g_before (groups world_ab 1)) \<longrightarrow>
                     c_boffset (cursor (view w')) = c_boffset (g_before (groups world_ab 1))) \<and>
                  groups w' = groups w1 \<and> groups_new w' = groups_new w1 \<and>
                  g_next (groups w' 1) \<noteq> None \<and>
                  (g_next (groups world_ab 1) = None \<longrightarrow>
                     g_next (groups w' 1) = Some (groups_new world_ab) \<and>
                     g_after (groups w' 1) = cursor (view world_ab) \<and>
                     groups w' (groups_new world_ab) = zero_group \<and>
                     groups_new w' = Suc (groups_new world_ab)) \<and>
                  (g_next (groups world_ab 1) \<noteq> None \<longrightarrow>
                     groups w' = groups world_ab \<and> groups_new w' = groups_new world_ab)"
    and r: "top_line (view world_ab) \<noteq> None \<and>
                (0 \<le> c_boffset (g_before (groups world_ab 1)) \<or>
                 c_line (g_before (groups world_ab 1)) \<noteq> None) \<longrightarrow>
              undo spec_env world_ab \<noteq> None"
    by (elim exE conjE) blast
  from r a(6,7) have "undo spec_env world_ab \<noteq> None"
    by simp
  then obtain w' where w': "undo spec_env world_ab = Some w'"
    by blast
  note pw = p [rule_format, OF w', unfolded a(3) a(6) a(8) a(9) a(10)]
  from pw
  have q: "history (buf w') = Some 0" "c_line (cursor (view w')) = Some 0"
    "c_line_num (cursor (view w')) = 1" "c_boffset (cursor (view w')) = 0"
    "g_next (groups w' 1) = Some 2"
    "g_after (groups w' 1) = \<lparr>c_line = Some 0, c_line_num = 1, c_boffset = 2\<rparr>"
    "groups w' 2 = zero_group" "groups_new w' = 3"
    by (elim conjE, simp)+
  from l w' have "line_data (lines w' 0) = []"
    by simp
  with w' q have A: "\<exists>w'. undo spec_env world_ab = Some w' \<and> history (buf w') = Some 0 \<and>
      c_line (cursor (view w')) = Some 0 \<and> c_line_num (cursor (view w')) = 1 \<and>
      c_boffset (cursor (view w')) = 0 \<and> line_data (lines w' 0) = [] \<and>
      g_next (groups w' 1) = Some 2 \<and>
      g_after (groups w' 1) = \<lparr>c_line = Some 0, c_line_num = 1, c_boffset = 2\<rparr> \<and>
      groups w' 2 = zero_group \<and> groups_new w' = 3"
    by blast
  have b: "history (buf world0) = Some 0" "0 < groups_new world0"
    "g_prev (groups world0 0) = None"
    by code_simp+
  from undo_reverts_current_group [of world0 0 spec_env] b
  have "undo spec_env world0 = Some world0"
    by simp
  with a A b show ?thesis
    by simp
qed

section \<open>Claim C3: redo\<close>

text \<open>
  Claim C3. The buffer has a history pointer \<open>h\<close>.
  \<^item> When \<open>h\<close> has no successor, or its successor has no recorded action, \<open>redo\<close>
    returns the world as it is: buffer, history pointer and cursor are unchanged.
  \<^item> Otherwise \<open>redo\<close> sets the history pointer to the successor \<open>n\<close>, applies the
    actions of \<open>n\<close> in recorded order (\<open>apply_all\<close>) and moves the cursor to the "after"
    snapshot of \<open>n\<close>. When it returns, the history pointer is \<open>n\<close>, the cursor is on the
    line of the snapshot, with its number and (when the snapshot has one) its byte
    offset, and the lines are the ones the actions left. It returns when the view has
    a top line and the snapshot has a byte offset or a line.
\<close>

theorem redo_applies_successor:
  assumes "history (buf w) = Some h"
  shows "(g_next (groups w h) = None \<longrightarrow> redo E w = Some w) \<and>
         (\<forall>n. g_next (groups w h) = Some n \<longrightarrow>
            (g_actions (groups w n) = [] \<longrightarrow> redo E w = Some w) \<and>
            (g_actions (groups w n) \<noteq> [] \<longrightarrow>
               redo E w =
                 Option.bind
                   (with_view (\<lambda>ls. move_cursor_to E ls (g_after (groups w n)))
                      (apply_all E (g_actions (groups w n))
                         (w\<lparr>buf := (buf w)\<lparr>history := Some n\<rparr>\<rparr>)))
                   (\<lambda>w3. Some (w3\<lparr>view := (view w3)\<lparr>last_cursor_voffset :=
                                                      cursor_voffset (view w3)\<rparr>\<rparr>)) \<and>
               (\<forall>w'. redo E w = Some w' \<longrightarrow>
                  history (buf w') = Some n \<and>
                  lines w' = lines (apply_all E (g_actions (groups w n))
                                      (w\<lparr>buf := (buf w)\<lparr>history := Some n\<rparr>\<rparr>)) \<and>
                  c_line (cursor (view w')) = c_line (g_after (groups w n)) \<and>
                  c_line_num (cursor (view w')) = c_line_num (g_after (groups w n)) \<and>
                  (0 \<le> c_boffset (g_after (groups w n)) \<longrightarrow>
                     c_boffset (cursor (view w')) = c_boffset (g_after (groups w n)))) \<and>
               (top_line (view w) \<noteq> None \<and>
                (0 \<le> c_boffset (g_after (groups w n)) \<or>
                 c_line (g_after (groups w n)) \<noteq> None) \<longrightarrow> redo E w \<noteq> None)))"
proof -
  have A: "redo E w = Some w" if "g_next (groups w h) = None"
    using that assms by (simp add: redo_def)
  have B: "redo E w = Some w" if "g_next (groups w h) = Some n" "g_actions (groups w n) = []" for n
    using that assms by (simp add: redo_def)
  have C: "redo E w =
             Option.bind
               (with_view (\<lambda>ls. move_cursor_to E ls (g_after (groups w n)))
                  (apply_all E (g_actions (groups w n))
                     (w\<lparr>buf := (buf w)\<lparr>history := Some n\<rparr>\<rparr>)))
               (\<lambda>w3. Some (w3\<lparr>view := (view w3)\<lparr>last_cursor_voffset :=
                                                  cursor_voffset (view w3)\<rparr>\<rparr>)) \<and>
           (\<forall>w'. redo E w = Some w' \<longrightarrow>
              history (buf w') = Some n \<and>
              lines w' = lines (apply_all E (g_actions (groups w n))
                                  (w\<lparr>buf := (buf w)\<lparr>history := Some n\<rparr>\<rparr>)) \<and>
              c_line (cursor (view w')) = c_line (g_after (groups w n)) \<and>
              c_line_num (cursor (view w')) = c_line_num (g_after (groups w n)) \<and>
              (0 \<le> c_boffset (g_after (groups w n)) \<longrightarrow>
                 c_boffset (cursor (view w')) = c_boffset (g_after (groups w n)))) \<and>
           (top_line (view w) \<noteq> None \<and>
            (0 \<le> c_boffset (g_after (groups w n)) \<or>
             c_line (g_after (groups w n)) \<noteq> None) \<longrightarrow> redo E w \<noteq> None)"
    if n: "g_next (groups w h) = Some n" and ne: "g_actions (groups w n) \<noteq> []" for n
  proof -
    let ?acts = "g_actions (groups w n)"
    let ?after = "g_after (groups w n)"
    let ?w1 = "w\<lparr>buf := (buf w)\<lparr>history := Some n\<rparr>\<rparr>"
    define w2 where "w2 = apply_all E ?acts ?w1"
    let ?K = "\<lambda>w3. Some (w3\<lparr>view := (view w3)\<lparr>last_cursor_voffset := cursor_voffset (view w3)\<rparr>\<rparr>)"
    let ?M = "with_view (\<lambda>ls. move_cursor_to E ls ?after) w2"
    have h1: "history (buf ?w1) = Some n"
      by simp
    have loop: "redo_loop E (int (length ?acts)) 0 ?w1 = Some w2"
      using redo_loop_apply_all [OF h1, of E] by (simp add: w2_def)
    have w2: "history (buf w2) = Some n" "groups w2 = groups w" "view w2 = view w"
      by (simp_all add: w2_def)
    have eq: "redo E w = Option.bind ?M ?K"
      using assms n ne loop w2(1,2) by (simp add: redo_def Let_def)
    have post: "history (buf w') = Some n \<and> lines w' = lines w2 \<and>
                c_line (cursor (view w')) = c_line ?after \<and>
                c_line_num (cursor (view w')) = c_line_num ?after \<and>
                (0 \<le> c_boffset ?after \<longrightarrow> c_boffset (cursor (view w')) = c_boffset ?after)"
      if "redo E w = Some w'" for w'
    proof -
      from that eq have "Option.bind ?M ?K = Some w'"
        by simp
      then obtain w3 where w3: "?M = Some w3"
        and w': "w' = w3\<lparr>view := (view w3)\<lparr>last_cursor_voffset := cursor_voffset (view w3)\<rparr>\<rparr>"
        by (auto simp: bind_eq_Some_conv)
      from with_view_keeps [OF w3]
      have k: "lines w3 = lines w2" "buf w3 = buf w2"
        "move_cursor_to E (lines w2) ?after (view w2) = Some (view w3)"
        by simp_all
      from move_cursor_to_cursor [OF k(3)] k(1,2) w2(1) show ?thesis
        by (simp add: w')
    qed
    have ret: "redo E w \<noteq> None"
      if "top_line (view w) \<noteq> None \<and> (0 \<le> c_boffset ?after \<or> c_line ?after \<noteq> None)"
    proof -
      from that have "move_cursor_to E (lines w2) ?after (view w2) \<noteq> None"
        by (intro move_cursor_to_returns) (simp_all add: w2(3))
      then have "?M \<noteq> None"
        by (simp add: with_view_def)
      with eq show ?thesis
        by (auto simp: bind_eq_None_conv)
    qed
    from eq post ret show ?thesis
      unfolding w2_def by blast
  qed
  from A B C show ?thesis
    by blast
qed

text \<open>The world \<open>undo\<close> makes of \<open>world_ab\<close>: the line is empty again, group 1 is closed.\<close>

definition groups_undone :: "gref \<Rightarrow> action_group" where
  "groups_undone g =
     (if g = 1 then (groups_ab 1)\<lparr>g_next := Some 2,
                       g_after := \<lparr>c_line = Some 0, c_line_num = 1, c_boffset = 2\<rparr>\<rparr>
      else groups_ab g)"

definition world_undone :: "(unit, unit) world" where
  "world_undone =
     world_ab\<lparr>lines := (\<lambda>l. zero_line), groups := groups_undone, groups_new := 3,
       buf := (buf world_ab)\<lparr>bytes_n := 0, history := Some 0\<rparr>,
       view := (view world_ab)\<lparr>cursor := \<lparr>c_line = Some 0, c_line_num = 1, c_boffset = 0\<rparr>,
                 cursor_coffset := 0, cursor_voffset := 0, last_cursor_voffset := 0\<rparr>\<rparr>"

lemma world_undone_undo:
  "case undo spec_env world_ab of None \<Rightarrow> False
   | Some w \<Rightarrow> buf w = buf world_undone \<and> view w = view world_undone \<and>
       groups w 0 = groups_undone 0 \<and> groups w 1 = groups_undone 1 \<and>
       groups w 2 = groups_undone 2 \<and> groups_new w = 3 \<and> lines w 0 = zero_line \<and>
       lines_new w = 1 \<and> sr w = []"
  by code_simp

theorem redo_applies_successor_witness:
  "history (buf world_undone) = Some 0 \<and> g_next (groups world_undone 0) = Some 1 \<and>
   length (g_actions (groups world_undone 1)) = 2 \<and>
   line_data (lines world_undone 0) = [] \<and>
   (\<exists>w'. redo spec_env world_undone = Some w' \<and> history (buf w') = Some 1 \<and>
      c_line (cursor (view w')) = Some 0 \<and> c_line_num (cursor (view w')) = 1 \<and>
      c_boffset (cursor (view w')) = 2 \<and> line_data (lines w' 0) = [0x61, 0x62]) \<and>
   history (buf world_ab) = Some 1 \<and> g_next (groups world_ab 1) = None \<and>
   redo spec_env world_ab = Some world_ab \<and>
   history (buf world0) = Some 0 \<and> g_next (groups world0 0) = Some 1 \<and>
   g_actions (groups world0 1) = [] \<and> redo spec_env world0 = Some world0"
proof -
  have a: "history (buf world_undone) = Some 0" "g_next (groups world_undone 0) = Some 1"
    "length (g_actions (groups world_undone 1)) = 2"
    "line_data (lines world_undone 0) = []"
    "g_after (groups world_undone 1) = \<lparr>c_line = Some 0, c_line_num = 1, c_boffset = 2\<rparr>"
    "top_line (view world_undone) = Some 0"
    by code_simp+
  from a(3) have ne: "g_actions (groups world_undone 1) \<noteq> []"
    by auto
  have l: "case redo spec_env world_undone of None \<Rightarrow> True
           | Some w' \<Rightarrow> line_data (lines w' 0) = [0x61, 0x62]"
    by code_simp
  from redo_applies_successor [of world_undone 0 spec_env] a(1,2) ne
  have r: "(\<forall>w'. redo spec_env world_undone = Some w' \<longrightarrow>
              history (buf w') = Some 1 \<and>
              c_line (cursor (view w')) = c_line (g_after (groups world_undone 1)) \<and>
              c_line_num (cursor (view w')) = c_line_num (g_after (groups world_undone 1)) \<and>
              (0 \<le> c_boffset (g_after (groups world_undone 1)) \<longrightarrow>
                 c_boffset (cursor (view w')) = c_boffset (g_after (groups world_undone 1)))) \<and>
           (top_line (view world_undone) \<noteq> None \<and>
            (0 \<le> c_boffset (g_after (groups world_undone 1)) \<or>
             c_line (g_after (groups world_undone 1)) \<noteq> None) \<longrightarrow>
              redo spec_env world_undone \<noteq> None)"
    by blast
  from r a(5,6) have "redo spec_env world_undone \<noteq> None"
    by simp
  moreover from r a(5) have p: "\<forall>w'. redo spec_env world_undone = Some w' \<longrightarrow>
                  history (buf w') = Some 1 \<and> c_line (cursor (view w')) = Some 0 \<and>
                  c_line_num (cursor (view w')) = 1 \<and> c_boffset (cursor (view w')) = 2"
    by simp
  ultimately obtain w' where w': "redo spec_env world_undone = Some w'"
    by blast
  with l p have A: "\<exists>w'. redo spec_env world_undone = Some w' \<and> history (buf w') = Some 1 \<and>
      c_line (cursor (view w')) = Some 0 \<and> c_line_num (cursor (view w')) = 1 \<and>
      c_boffset (cursor (view w')) = 2 \<and> line_data (lines w' 0) = [0x61, 0x62]"
    by simp
  have b: "history (buf world_ab) = Some 1" "g_next (groups world_ab 1) = None"
    by code_simp+
  from redo_applies_successor [of world_ab 1 spec_env] b
  have B: "redo spec_env world_ab = Some world_ab"
    by simp
  have c: "history (buf world0) = Some 0" "g_next (groups world0 0) = Some 1"
    "g_actions (groups world0 1) = []"
    by code_simp+
  from redo_applies_successor [of world0 0 spec_env] c
  have C: "redo spec_env world0 = Some world0"
    by simp
  from a A b B c C show ?thesis
    by simp
qed

section \<open>Claim C10: a recorded edit severs the redo chain\<close>

text \<open>
  \<open>glinked gs p xs q\<close>: the groups \<open>xs\<close> are doubly linked in the store \<open>gs\<close>, the first
  one with \<open>prev = p\<close>, the last one with \<open>next = q\<close>. \<open>next_path gs n xs\<close>: \<open>xs\<close> are the
  groups that follow \<open>n\<close> along \<open>next\<close>, to the end. \<open>reachable gs h g\<close>: the group \<open>g\<close>
  is reached from \<open>h\<close> along \<open>next\<close> and \<open>prev\<close>.
\<close>

fun glinked ::
  "(gref \<Rightarrow> action_group) \<Rightarrow> gref option \<Rightarrow> gref list \<Rightarrow> gref option \<Rightarrow> bool" where
  "glinked gs p [] q = True"
| "glinked gs p (x # xs) q =
     (g_prev (gs x) = p \<and>
      g_next (gs x) = (case xs of [] \<Rightarrow> q | y # _ \<Rightarrow> Some y) \<and>
      glinked gs (Some x) xs q)"

fun next_path :: "(gref \<Rightarrow> action_group) \<Rightarrow> gref \<Rightarrow> gref list \<Rightarrow> bool" where
  "next_path gs n [] = (g_next (gs n) = None)"
| "next_path gs n (x # xs) = (g_next (gs n) = Some x \<and> next_path gs x xs)"

inductive reachable :: "(gref \<Rightarrow> action_group) \<Rightarrow> gref \<Rightarrow> gref \<Rightarrow> bool"
  for gs :: "gref \<Rightarrow> action_group" and h :: gref where
  reachable_here: "reachable gs h h"
| reachable_next: "reachable gs h x \<Longrightarrow> g_next (gs x) = Some y \<Longrightarrow> reachable gs h y"
| reachable_prev: "reachable gs h x \<Longrightarrow> g_prev (gs x) = Some y \<Longrightarrow> reachable gs h y"

lemma glinked_mem:
  assumes "glinked gs p xs q" and "x \<in> set xs"
  shows "(g_next (gs x) = q \<or> (\<exists>y\<in>set xs. g_next (gs x) = Some y)) \<and>
         (g_prev (gs x) = p \<or> (\<exists>y\<in>set xs. g_prev (gs x) = Some y))"
  using assms
proof (induction xs arbitrary: p)
  case Nil
  then show ?case
    by simp
next
  case (Cons a xs)
  show ?case
  proof (cases "x = a")
    case True
    with Cons.prems(1) show ?thesis
      by (cases xs) auto
  next
    case False
    with Cons.prems have "glinked gs (Some a) xs q" "x \<in> set xs"
      by auto
    from Cons.IH [OF this] show ?thesis
      by auto
  qed
qed

lemma new_lines_keeps:
  "buf (snd (new_lines k w)) = buf w \<and> groups (snd (new_lines k w)) = groups w \<and>
   groups_new (snd (new_lines k w)) = groups_new w \<and> view (snd (new_lines k w)) = view w \<and>
   sr (snd (new_lines k w)) = sr w"
proof (induction k arbitrary: w)
  case 0
  show ?case
    by simp
next
  case (Suc k)
  let ?w = "w\<lparr>lines := (lines w)(lines_new w := zero_line), lines_new := Suc (lines_new w)\<rparr>"
  have "snd (new_lines (Suc k) w) = snd (new_lines k ?w)"
    by (simp add: new_line_def Let_def case_prod_beta)
  with Suc [of ?w] show ?case
    by simp
qed

lemma maybe_next_action_group_result:
  assumes "history (buf w) = Some h"
  shows "\<exists>w1 cur. maybe_next_action_group w = Some w1 \<and> history (buf w1) = Some cur \<and>
           cur = (case g_next (groups w h) of None \<Rightarrow> h | Some n \<Rightarrow> n) \<and>
           g_next (groups w1 cur) = None \<and>
           (g_next (groups w h) \<noteq> None \<longrightarrow>
              g_actions (groups w1 cur) = [] \<and> g_prev (groups w1 cur) = Some h \<and>
              g_before (groups w1 cur) = cursor (view w)) \<and>
           (g_next (groups w h) = None \<longrightarrow> w1 = w) \<and>
           (\<forall>x. x \<noteq> cur \<longrightarrow> groups w1 x = groups w x) \<and>
           view w1 = view w \<and> lines w1 = lines w \<and> sr w1 = sr w \<and>
           groups_new w1 = groups_new w"
  using assms
  by (auto simp: maybe_next_action_group_def set_group_def Let_def split: option.splits)

lemma history_append_result:
  assumes "history (buf w) = Some h"
  shows "\<exists>w'. history_append E a w = Some w' \<and> buf w' = buf w \<and> view w' = view w \<and>
           lines w' = lines w \<and> sr w' = sr w \<and> groups_new w' = groups_new w \<and>
           g_actions (groups w' h) = group_append E (g_actions (groups w h)) a \<and>
           g_next (groups w' h) = g_next (groups w h) \<and>
           g_prev (groups w' h) = g_prev (groups w h) \<and>
           g_before (groups w' h) = g_before (groups w h) \<and>
           (\<forall>x. x \<noteq> h \<longrightarrow> groups w' x = groups w x)"
  using assms by (auto simp: history_append_def set_group_def)

text \<open>
  What \<open>action_insert\<close> and \<open>action_delete\<close> leave of the history: the current group
  \<open>cur\<close> is the successor of \<open>h\<close> if it had one and \<open>h\<close> otherwise, it has no successor,
  and the action \<open>a\<close> is appended to its actions (to none, in a successor); every other
  group is as it was.
\<close>

definition edited ::
  "('ac, 'x) env \<Rightarrow> ('ac, 'x) world \<Rightarrow> gref \<Rightarrow> action \<Rightarrow> ('ac, 'x) world \<Rightarrow> bool" where
  "edited E w h a w' =
     (let cur = (case g_next (groups w h) of None \<Rightarrow> h | Some n \<Rightarrow> n)
      in history (buf w') = Some cur \<and> g_next (groups w' cur) = None \<and>
         (g_next (groups w h) \<noteq> None \<longrightarrow>
            g_prev (groups w' cur) = Some h \<and> g_before (groups w' cur) = cursor (view w)) \<and>
         g_actions (groups w' cur) =
           group_append E (if g_next (groups w h) = None then g_actions (groups w h) else []) a \<and>
         (\<forall>x. x \<noteq> cur \<longrightarrow> groups w' x = groups w x) \<and>
         view w' = view w \<and> groups_new w' = groups_new w \<and> sr w' = sr w)"

lemma record_action_edited:
  assumes "history (buf w) = Some h"
    and w1: "maybe_next_action_group w = Some w1"
    and keeps: "buf w2 = buf w1" "groups w2 = groups w1" "groups_new w2 = groups_new w1"
      "view w2 = view w1" "sr w2 = sr w1"
    and w': "history_append E a (apply_action E a w2) = Some w'"
  shows "edited E w h a w'"
proof -
  from maybe_next_action_group_result [OF assms(1)] w1
  obtain cur where c: "history (buf w1) = Some cur"
    "cur = (case g_next (groups w h) of None \<Rightarrow> h | Some n \<Rightarrow> n)"
    "g_next (groups w1 cur) = None"
    "g_next (groups w h) \<noteq> None \<longrightarrow>
              g_actions (groups w1 cur) = [] \<and> g_prev (groups w1 cur) = Some h \<and>
              g_before (groups w1 cur) = cursor (view w)"
    "g_next (groups w h) = None \<longrightarrow> w1 = w"
    "\<forall>x. x \<noteq> cur \<longrightarrow> groups w1 x = groups w x"
    "view w1 = view w" "sr w1 = sr w" "groups_new w1 = groups_new w"
    by auto
  let ?w3 = "apply_action E a w2"
  have h3: "history (buf ?w3) = Some cur"
    using c(1) keeps(1) by simp
  from history_append_result [OF h3, of E a] w'
  have r: "buf w' = buf ?w3" "view w' = view ?w3" "sr w' = sr ?w3"
    "groups_new w' = groups_new ?w3"
    "g_actions (groups w' cur) = group_append E (g_actions (groups ?w3 cur)) a"
    "g_next (groups w' cur) = g_next (groups ?w3 cur)"
    "g_prev (groups w' cur) = g_prev (groups ?w3 cur)"
    "g_before (groups w' cur) = g_before (groups ?w3 cur)"
    "\<forall>x. x \<noteq> cur \<longrightarrow> groups w' x = groups ?w3 x"
    by auto
  have g3: "groups ?w3 = groups w1"
    using keeps(2) by simp
  have acts: "g_actions (groups w1 cur) =
      (if g_next (groups w h) = None then g_actions (groups w h) else [])"
    using c(2,4,5) by (auto split: option.splits)
  have "history (buf w') = Some cur"
    using r(1) h3 by simp
  moreover have "g_next (groups w' cur) = None"
    using r(6) g3 c(3) by simp
  moreover have "g_next (groups w h) \<noteq> None \<longrightarrow>
      g_prev (groups w' cur) = Some h \<and> g_before (groups w' cur) = cursor (view w)"
    using r(7,8) g3 c(4) by simp
  moreover have "g_actions (groups w' cur) =
      group_append E (if g_next (groups w h) = None then g_actions (groups w h) else []) a"
    using r(5) g3 acts by auto
  moreover have "\<forall>x. x \<noteq> cur \<longrightarrow> groups w' x = groups w x"
    using r(9) g3 c(6) by simp
  moreover have "view w' = view w" "groups_new w' = groups_new w" "sr w' = sr w"
    using r(2,3,4) keeps(3,4,5) c(7,8,9) by simp_all
  ultimately show ?thesis
    unfolding edited_def Let_def c(2) [symmetric] by blast
qed

lemma action_insert_edited:
  assumes "history (buf w) = Some h"
  shows "\<exists>w' ls. action_insert E c dat w = Some w' \<and>
           edited E w h \<lparr>a_what = action_type_insert, a_data = dat, a_cursor = c, a_lines = ls\<rparr> w'"
proof -
  from maybe_next_action_group_result [OF assms]
  obtain w1 cur where w1: "maybe_next_action_group w = Some w1" "history (buf w1) = Some cur"
    by blast
  define w2 where "w2 = snd (new_lines (count_newlines dat) w1)"
  define a where "a = \<lparr>a_what = action_type_insert, a_data = dat, a_cursor = c,
                       a_lines = fst (new_lines (count_newlines dat) w1)\<rparr>"
  have k: "buf w2 = buf w1" "groups w2 = groups w1" "groups_new w2 = groups_new w1"
    "view w2 = view w1" "sr w2 = sr w1"
    using new_lines_keeps [of "count_newlines dat" w1] by (simp_all add: w2_def)
  have "history (buf (apply_action E a w2)) = Some cur"
    using k(1) w1(2) by simp
  from history_append_result [OF this, of E a]
  obtain w' where w': "history_append E a (apply_action E a w2) = Some w'"
    by blast
  have "action_insert E c dat w = Some w'"
    using w1(1) w' by (simp add: action_insert_def Let_def case_prod_beta w2_def a_def)
  with record_action_edited [OF assms w1(1) k w'] show ?thesis
    unfolding a_def by blast
qed

lemma action_delete_edited:
  assumes "history (buf w) = Some h" and "action_delete E c nbytes w = Some w'"
  shows "\<exists>d ls. edited E w h
                    \<lparr>a_what = action_type_delete, a_data = d, a_cursor = c, a_lines = ls\<rparr> w'"
proof -
  from assms(2) obtain w1 ls where w1: "maybe_next_action_group w = Some w1"
    and w': "history_append E
               \<lparr>a_what = action_type_delete, a_data = extract_bytes E (lines w1) c nbytes,
                 a_cursor = c, a_lines = ls\<rparr>
               (apply_action E
                  \<lparr>a_what = action_type_delete, a_data = extract_bytes E (lines w1) c nbytes,
                    a_cursor = c, a_lines = ls\<rparr> w1) = Some w'"
    by (auto simp: action_delete_def Let_def split: bind_splits)
  from record_action_edited [OF assms(1) w1 refl refl refl refl refl w'] show ?thesis
    by blast
qed

lemma reachable_after_edit:
  assumes gl: "glinked gs None (past @ [h]) (Some n)" and n: "n \<notin> set (past @ [h])"
    and nn: "g_next (gs' n) = None" and np: "g_prev (gs' n) = Some h"
    and same: "\<forall>x. x \<noteq> n \<longrightarrow> gs' x = gs x"
    and r: "reachable gs' n g"
  shows "g \<in> set (past @ [h, n])"
  using r
proof (induction rule: reachable.induct)
  case reachable_here
  show ?case
    by simp
next
  case (reachable_next x y)
  show ?case
  proof (cases "x = n")
    case True
    with reachable_next.hyps(2) nn show ?thesis
      by simp
  next
    case False
    with reachable_next.IH have x: "x \<in> set (past @ [h])"
      by auto
    from False same reachable_next.hyps(2) have "g_next (gs x) = Some y"
      by simp
    with glinked_mem [OF gl x] show ?thesis
      by auto
  qed
next
  case (reachable_prev x y)
  show ?case
  proof (cases "x = n")
    case True
    with reachable_prev.hyps(2) np show ?thesis
      by simp
  next
    case False
    with reachable_prev.IH have x: "x \<in> set (past @ [h])"
      by auto
    from False same reachable_prev.hyps(2) have "g_prev (gs x) = Some y"
      by simp
    with glinked_mem [OF gl x] show ?thesis
      by auto
  qed
qed

text \<open>
  Claim C10. The buffer has a history pointer \<open>h\<close>.
  \<^item> When \<open>h\<close> has a successor \<open>n\<close>, \<open>maybe_next_action_group\<close> returns with the history
    pointer on \<open>n\<close>, the actions of \<open>n\<close> cleared, its \<open>next\<close> nil, its \<open>prev\<close> \<open>h\<close> and its
    "before" snapshot the cursor of the view.
  \<^item> \<open>action_insert\<close> returns. After \<open>action_insert\<close> or \<open>action_delete\<close> the current
    group (the successor \<open>n\<close>, if \<open>h\<close> had one) has no successor, and \<open>redo\<close> returns the
    world as it is.
  \<^item> When the history before the edit is a doubly linked list (\<open>past\<close>, then \<open>h\<close>, then
    \<open>n\<close>, then the groups \<open>fut\<close> that follow \<open>n\<close>, all distinct), the groups reached from
    the history pointer after the edit are among \<open>past\<close>, \<open>h\<close> and \<open>n\<close>: no group of \<open>fut\<close>
    is reached.
\<close>

theorem recorded_edit_severs_redo:
  assumes "history (buf w) = Some h"
  shows "(\<forall>n. g_next (groups w h) = Some n \<longrightarrow>
            (\<exists>w1. maybe_next_action_group w = Some w1 \<and> history (buf w1) = Some n \<and>
               g_actions (groups w1 n) = [] \<and> g_next (groups w1 n) = None \<and>
               g_prev (groups w1 n) = Some h \<and> g_before (groups w1 n) = cursor (view w))) \<and>
         action_insert E c dat w \<noteq> None \<and>
         (\<forall>w'. action_insert E c dat w = Some w' \<or> action_delete E c nbytes w = Some w' \<longrightarrow>
            (\<exists>cur. history (buf w') = Some cur \<and> g_next (groups w' cur) = None \<and>
               (\<forall>n. g_next (groups w h) = Some n \<longrightarrow> cur = n)) \<and>
            redo E w' = Some w' \<and>
            (\<forall>n past fut.
               g_next (groups w h) = Some n \<and>
               glinked (groups w) None (past @ [h]) (Some n) \<and>
               next_path (groups w) n fut \<and> distinct (past @ h # n # fut) \<longrightarrow>
               (\<forall>g. reachable (groups w') n g \<longrightarrow> g \<in> set (past @ [h, n])) \<and>
               (\<forall>g\<in>set fut. \<not> reachable (groups w') n g)))"
proof -
  have A: "\<exists>w1. maybe_next_action_group w = Some w1 \<and> history (buf w1) = Some n \<and>
               g_actions (groups w1 n) = [] \<and> g_next (groups w1 n) = None \<and>
               g_prev (groups w1 n) = Some h \<and> g_before (groups w1 n) = cursor (view w)"
    if "g_next (groups w h) = Some n" for n
    using maybe_next_action_group_result [OF assms] that by auto
  have B: "action_insert E c dat w \<noteq> None"
    using action_insert_edited [OF assms, of E c dat] by auto
  have C: "(\<exists>cur. history (buf w') = Some cur \<and> g_next (groups w' cur) = None \<and>
               (\<forall>n. g_next (groups w h) = Some n \<longrightarrow> cur = n)) \<and>
            redo E w' = Some w' \<and>
            (\<forall>n past fut.
               g_next (groups w h) = Some n \<and>
               glinked (groups w) None (past @ [h]) (Some n) \<and>
               next_path (groups w) n fut \<and> distinct (past @ h # n # fut) \<longrightarrow>
               (\<forall>g. reachable (groups w') n g \<longrightarrow> g \<in> set (past @ [h, n])) \<and>
               (\<forall>g\<in>set fut. \<not> reachable (groups w') n g))"
    if e: "action_insert E c dat w = Some w' \<or> action_delete E c nbytes w = Some w'" for w'
  proof -
    have "\<exists>a. edited E w h a w'"
    proof (cases "action_insert E c dat w = Some w'")
      case True
      with action_insert_edited [OF assms, of E c dat] show ?thesis
        by auto
    next
      case False
      with e have "action_delete E c nbytes w = Some w'"
        by simp
      from action_delete_edited [OF assms this] show ?thesis
        by blast
    qed
    then obtain a where ed: "edited E w h a w'"
      by blast
    define cur where "cur = (case g_next (groups w h) of None \<Rightarrow> h | Some n \<Rightarrow> n)"
    from ed have c: "history (buf w') = Some cur" "g_next (groups w' cur) = None"
      "g_next (groups w h) \<noteq> None \<longrightarrow> g_prev (groups w' cur) = Some h"
      "\<forall>x. x \<noteq> cur \<longrightarrow> groups w' x = groups w x"
      unfolding edited_def Let_def cur_def [symmetric] by simp_all
    have c1: "\<exists>cur. history (buf w') = Some cur \<and> g_next (groups w' cur) = None \<and>
               (\<forall>n. g_next (groups w h) = Some n \<longrightarrow> cur = n)"
      using c(1,2) by (auto simp: cur_def)
    have c2: "redo E w' = Some w'"
      using c(1,2) by (simp add: redo_def)
    have c3: "(\<forall>g. reachable (groups w') n g \<longrightarrow> g \<in> set (past @ [h, n])) \<and>
              (\<forall>g\<in>set fut. \<not> reachable (groups w') n g)"
      if h: "g_next (groups w h) = Some n \<and>
             glinked (groups w) None (past @ [h]) (Some n) \<and>
             next_path (groups w) n fut \<and> distinct (past @ h # n # fut)" for n past fut
    proof -
      from h have cn: "cur = n"
        by (simp add: cur_def)
      from h have n: "n \<notin> set (past @ [h])"
        by auto
      have in_chain: "g \<in> set (past @ [h, n])" if "reachable (groups w') n g" for g
        using reachable_after_edit [of "groups w" past h n "groups w'" g] h n c(2,3,4) that
        unfolding cn by auto
      moreover have "\<not> reachable (groups w') n g" if "g \<in> set fut" for g
      proof
        assume "reachable (groups w') n g"
        from in_chain [OF this] that h show False
          by auto
      qed
      ultimately show ?thesis
        by blast
    qed
    from c1 c2 c3 show ?thesis
      by blast
  qed
  from A B C show ?thesis
    by blast
qed

theorem recorded_edit_severs_redo_witness:
  "history (buf world_undone) = Some 0 \<and> g_next (groups world_undone 0) = Some 1 \<and>
   glinked (groups world_undone) None ([] @ [0]) (Some 1) \<and>
   next_path (groups world_undone) 1 [2] \<and> distinct ([] @ 0 # 1 # [2 :: gref]) \<and>
   redo spec_env world_undone \<noteq> Some world_undone \<and>
   (\<exists>w'. action_insert spec_env (cursor (view world_undone)) [0x63] world_undone = Some w' \<and>
      history (buf w') = Some 1 \<and> g_next (groups w' 1) = None \<and>
      length (g_actions (groups w' 1)) = 1 \<and> line_data (lines w' 0) = [0x63] \<and>
      redo spec_env w' = Some w' \<and> \<not> reachable (groups w') 1 2)"
proof -
  have a: "history (buf world_undone) = Some 0" "g_next (groups world_undone 0) = Some 1"
    "glinked (groups world_undone) None ([] @ [0]) (Some 1)"
    "next_path (groups world_undone) 1 [2]" "distinct ([] @ 0 # 1 # [2 :: gref])"
    by code_simp+
  have b: "redo spec_env world_undone \<noteq> Some world_undone"
  proof
    assume "redo spec_env world_undone = Some world_undone"
    then have "map_option (\<lambda>w. history (buf w)) (redo spec_env world_undone) = Some (Some 0)"
      using a(1) by simp
    moreover have "map_option (\<lambda>w. history (buf w)) (redo spec_env world_undone) = Some (Some 1)"
      by code_simp
    ultimately show False
      by simp
  qed
  let ?c = "cursor (view world_undone)"
  have l: "case action_insert spec_env ?c [0x63] world_undone of None \<Rightarrow> True
           | Some w' \<Rightarrow> length (g_actions (groups w' 1)) = 1 \<and> line_data (lines w' 0) = [0x63]"
    by code_simp
  note t = recorded_edit_severs_redo [OF a(1), of spec_env ?c "[0x63]" 0]
  from t obtain w' where w': "action_insert spec_env ?c [0x63] world_undone = Some w'"
    by blast
  with t have r: "(\<exists>cur. history (buf w') = Some cur \<and> g_next (groups w' cur) = None \<and>
               (\<forall>n. g_next (groups world_undone 0) = Some n \<longrightarrow> cur = n))"
    "redo spec_env w' = Some w'"
    "\<forall>n past fut.
               g_next (groups world_undone 0) = Some n \<and>
               glinked (groups world_undone) None (past @ [0]) (Some n) \<and>
               next_path (groups world_undone) n fut \<and> distinct (past @ 0 # n # fut) \<longrightarrow>
               (\<forall>g\<in>set fut. \<not> reachable (groups w') n g)"
    by blast+
  from r(1) a(2) have h: "history (buf w') = Some 1" "g_next (groups w' 1) = None"
    by auto
  from r(3) a have "\<forall>g\<in>set [2]. \<not> reachable (groups w') 1 g"
    by blast
  then have u: "\<not> reachable (groups w') 1 2"
    by simp
  from l w' have "length (g_actions (groups w' 1)) = 1 \<and> line_data (lines w' 0) = [0x63]"
    by simp
  with w' h r(2) u have "\<exists>w'. action_insert spec_env ?c [0x63] world_undone = Some w' \<and>
      history (buf w') = Some 1 \<and> g_next (groups w' 1) = None \<and>
      length (g_actions (groups w' 1)) = 1 \<and> line_data (lines w' 0) = [0x63] \<and>
      redo spec_env w' = Some w' \<and> \<not> reachable (groups w') 1 2"
    by blast
  with a b show ?thesis
    by simp
qed

section \<open>Claim C4: command classes and undo groups\<close>

text \<open>
  \<open>same_history w w'\<close>: from \<open>w\<close> to \<open>w'\<close> the groups, the history pointer and the class
  of the last command are unchanged.
\<close>

definition same_history :: "('ac, 'x) world \<Rightarrow> ('ac, 'x) world \<Rightarrow> bool" where
  "same_history w w' =
     (groups w' = groups w \<and> groups_new w' = groups_new w \<and>
      history (buf w') = history (buf w) \<and>
      last_vcommand_class (view w') = last_vcommand_class (view w))"

lemma same_history_refl [simp]: "same_history w w"
  by (simp add: same_history_def)

lemma same_history_trans:
  "same_history w w1 \<Longrightarrow> same_history w1 w2 \<Longrightarrow> same_history w w2"
  by (simp add: same_history_def)

lemma set_status_same_history [simp]: "same_history w (set_status msg w)"
  by (simp add: same_history_def set_status_def)

lemma with_view_same_history:
  assumes "with_view f w = Some w'"
    and "\<And>v'. f (lines w) (view w) = Some v' \<Longrightarrow>
           last_vcommand_class v' = last_vcommand_class (view w)"
  shows "same_history w w'"
  using assms by (auto simp: with_view_def same_history_def)

lemma with_view_move_cursor_to:
  assumes "with_view (\<lambda>ls. move_cursor_to E ls (f ls)) w = Some w'"
  shows "same_history w w'"
  using assms
  by (rule with_view_same_history) (simp add: move_cursor_to_keeps)

lemma move_cursor_line_n_times_frame:
  assumes "move_cursor_line_n_times ls n v = Some v'"
  shows "last_vcommand_class v' = last_vcommand_class v"
  using assms
  by (auto simp: move_cursor_line_n_times_def Let_def split: if_splits option.splits prod.splits)

lemma move_top_line_n_times_class:
  assumes "move_top_line_n_times ls n v = Some v'"
  shows "last_vcommand_class v' = last_vcommand_class v"
  using move_top_line_n_times_frame [OF assms] by auto

lemma cursor_line_changed_class:
  assumes "cursor_line_changed E ls cur v = Some v'"
  shows "last_vcommand_class v' = last_vcommand_class v"
proof (cases "Some cur \<noteq> c_line (cursor v)")
  case True
  then have "c_line (cursor v) \<noteq> None"
    using assms by (auto simp: cursor_line_changed_def split: option.splits)
  from cursor_line_changed_frame [OF this, of E ls cur] assms show ?thesis
    by auto
next
  case False
  with assms show ?thesis
    by (simp add: cursor_line_changed_def)
qed

lemma adjust_cursor_line_class:
  assumes "adjust_cursor_line E ls v = Some v'"
  shows "last_vcommand_class v' = last_vcommand_class v"
proof -
  from assms obtain cur v1 v2 where
    v1: "(if line_next (ls cur) \<noteq> None \<and>
             c_line_num (cursor v) - top_line_num v < vertical_threshold E v
          then move_cursor_line_n_times ls
                 (vertical_threshold E v - (c_line_num (cursor v) - top_line_num v)) v
          else Some v) = Some v1"
    and v2: "(if line_prev (ls cur) \<noteq> None \<and>
                c_line_num (cursor v) - top_line_num v \<ge> height v - vertical_threshold E v
             then move_cursor_line_n_times ls
                    ((height v - vertical_threshold E v)
                       - (c_line_num (cursor v) - top_line_num v) - 1) v1
             else Some v1) = Some v2"
    and v': "cursor_line_changed E ls cur v2 = Some v'"
    by (auto simp: adjust_cursor_line_def Let_def split: option.splits bind_splits)
  from v1 have "last_vcommand_class v1 = last_vcommand_class v"
    by (auto split: if_splits dest: move_cursor_line_n_times_frame)
  moreover from v2 have "last_vcommand_class v2 = last_vcommand_class v1"
    by (auto split: if_splits dest: move_cursor_line_n_times_frame)
  moreover note cursor_line_changed_class [OF v']
  ultimately show ?thesis
    by simp
qed

lemma move_view_n_lines_same_history:
  assumes "move_view_n_lines E n w = Some w'"
  shows "same_history w w'"
proof -
  from assms obtain w1 w2 where w1: "with_view (\<lambda>ls. move_top_line_n_times ls n) w = Some w1"
    and w2: "with_view (adjust_cursor_line E) w1 = Some w2"
    and w': "w' = (if top_line_num (view w) \<noteq> top_line_num (view w2)
                   then w2\<lparr>view := (view w2)\<lparr>dirty := dirty_everything\<rparr>\<rparr> else w2)"
    by (auto simp: move_view_n_lines_def Let_def split: bind_splits)
  have "same_history w w1"
    using w1 by (rule with_view_same_history) (simp add: move_top_line_n_times_class)
  moreover have "same_history w1 w2"
    using w2 by (rule with_view_same_history) (simp add: adjust_cursor_line_class)
  moreover have "same_history w2 w'"
    by (simp add: w' same_history_def)
  ultimately show ?thesis
    by (blast intro: same_history_trans)
qed

lemma between_0_15:
  fixes cmd :: int
  assumes "0 < cmd \<and> cmd < 15"
  obtains "cmd = 1" | "cmd = 2" | "cmd = 3" | "cmd = 4" | "cmd = 5" | "cmd = 6" | "cmd = 7"
    | "cmd = 8" | "cmd = 9" | "cmd = 10" | "cmd = 11" | "cmd = 12" | "cmd = 13" | "cmd = 14"
proof -
  from assms have "cmd \<in> {1..14}"
    by auto
  also have "{1..14::int} = set [1..14]"
    by simp
  also have "[1..14::int] = [1, 2, 3, 4, 5, 6, 7, 8, 9, 10, 11, 12, 13, 14]"
    by (simp add: upto.simps)
  finally show ?thesis
    using that by auto
qed

lemma movement_same_history:
  assumes "vcommand_class_of cmd = vcommand_class_movement"
    and "run_vcommand E cmd arg w = Some w'"
  shows "same_history w w'"
proof -
  note defs = run_vcommand_def vcommand_move_cursor_forward_def
    vcommand_move_cursor_backward_def vcommand_move_cursor_word_forward_def
    vcommand_move_cursor_word_backward_def vcommand_move_cursor_next_line_def
    vcommand_move_cursor_prev_line_def vcommand_move_cursor_beginning_of_line_def
    vcommand_move_cursor_end_of_line_def vcommand_move_cursor_beginning_of_file_def
    vcommand_move_cursor_end_of_file_def vcommand_move_view_half_forward_def
    vcommand_move_view_half_backward_def vcommand_set_mark_def
    vcommand_swap_cursor_and_mark_def
  from assms(1) have "0 < cmd \<and> cmd < 15"
    by (simp add: vcommand_class_of_def vcommand_movement_beg_def vcommand_movement_end_def
        split: if_splits)
  then consider "cmd = 1" | "cmd = 2" | "cmd = 3" | "cmd = 4" | "cmd = 5" | "cmd = 6" | "cmd = 7"
    | "cmd = 8" | "cmd = 9" | "cmd = 10" | "cmd = 11" | "cmd = 12" | "cmd = 13" | "cmd = 14"
    by (rule between_0_15)
  then show ?thesis
  proof cases
    case 1
    with assms(2) have "move_cursor_forward E w = Some w'"
      by (simp add: defs)
    then show ?thesis
      by (auto simp: move_cursor_forward_def Let_def split: bind_splits if_splits
          dest: with_view_move_cursor_to)
  next
    case 2
    with assms(2) have "move_cursor_backward E w = Some w'"
      by (simp add: defs)
    then show ?thesis
      by (auto simp: move_cursor_backward_def Let_def split: bind_splits if_splits
          dest: with_view_move_cursor_to)
  next
    case 3
    with assms(2) have "move_cursor_word_forward E w = Some w'"
      by (simp add: defs)
    then show ?thesis
      by (auto simp: move_cursor_word_forward_def Let_def case_prod_beta
          split: bind_splits if_splits
          dest!: with_view_move_cursor_to intro: same_history_trans)
  next
    case 4
    with assms(2) have "move_cursor_word_backward E w = Some w'"
      by (simp add: defs)
    then show ?thesis
      by (auto simp: move_cursor_word_backward_def Let_def case_prod_beta
          split: bind_splits if_splits
          dest!: with_view_move_cursor_to intro: same_history_trans)
  next
    case 5
    with assms(2) have "move_cursor_next_line E w = Some w'"
      by (simp add: defs)
    then show ?thesis
      by (auto simp: move_cursor_next_line_def Let_def split: bind_splits if_splits
          dest: with_view_move_cursor_to)
  next
    case 6
    with assms(2) have "move_cursor_prev_line E w = Some w'"
      by (simp add: defs)
    then show ?thesis
      by (auto simp: move_cursor_prev_line_def Let_def split: bind_splits if_splits
          dest: with_view_move_cursor_to)
  next
    case 7
    with assms(2) have "move_cursor_beginning_of_line E w = Some w'"
      by (simp add: defs)
    then show ?thesis
      by (auto simp: move_cursor_beginning_of_line_def dest: with_view_move_cursor_to)
  next
    case 8
    with assms(2) have "move_cursor_end_of_line E w = Some w'"
      by (simp add: defs)
    then show ?thesis
      by (auto simp: move_cursor_end_of_line_def dest: with_view_move_cursor_to)
  next
    case 9
    with assms(2) have "move_cursor_beginning_of_file E w = Some w'"
      by (simp add: defs)
    then show ?thesis
      by (auto simp: move_cursor_beginning_of_file_def dest: with_view_move_cursor_to)
  next
    case 10
    with assms(2) have "move_cursor_end_of_file E w = Some w'"
      by (simp add: defs)
    then show ?thesis
      by (auto simp: move_cursor_end_of_file_def split: option.splits
          dest: with_view_move_cursor_to)
  next
    case 11
    with assms(2) have "maybe_move_view_n_lines E (height (view w) sdiv 2) w = Some w'"
      by (simp add: defs)
    then show ?thesis
      by (auto simp: maybe_move_view_n_lines_def split: bind_splits if_splits
          dest: move_view_n_lines_same_history)
  next
    case 12
    with assms(2) have "move_view_n_lines E ((- height (view w)) sdiv 2) w = Some w'"
      by (simp add: defs)
    then show ?thesis
      by (rule move_view_n_lines_same_history)
  next
    case 13
    with assms(2) have "w' = set_mark w"
      by (simp add: defs)
    then show ?thesis
      by (simp add: set_mark_def set_status_def same_history_def)
  next
    case 14
    with assms(2) have "swap_cursor_and_mark E w = Some w'"
      by (simp add: defs)
    then show ?thesis
      by (auto simp: swap_cursor_and_mark_def Let_def same_history_def split: if_splits
          dest!: with_view_move_cursor_to)
  qed
qed

text \<open>
  The class of the last command is written by \<open>on_vcommand\<close> alone: no command changes
  it (\<open>autocompl.finalize\<close>, of another file, left aside).
\<close>

lemma action_insert_class:
  assumes "action_insert E c dat w = Some w'"
  shows "last_vcommand_class (view w') = last_vcommand_class (view w)"
proof (cases "history (buf w)")
  case None
  with assms show ?thesis
    by (simp add: action_insert_def maybe_next_action_group_def)
next
  case (Some h)
  from action_insert_edited [OF Some, of E c dat] assms show ?thesis
    by (auto simp: edited_def Let_def)
qed

lemma action_delete_class:
  assumes "action_delete E c n w = Some w'"
  shows "last_vcommand_class (view w') = last_vcommand_class (view w)"
proof (cases "history (buf w)")
  case None
  with assms show ?thesis
    by (simp add: action_delete_def maybe_next_action_group_def)
next
  case (Some h)
  from action_delete_edited [OF Some assms] show ?thesis
    by (auto simp: edited_def Let_def)
qed

lemma with_view_move_cursor_to_class:
  assumes "with_view (\<lambda>ls. move_cursor_to E ls (f ls)) w = Some w'"
  shows "last_vcommand_class (view w') = last_vcommand_class (view w)"
  using with_view_move_cursor_to [OF assms] by (simp add: same_history_def)

lemma set_dirty_everything_class [simp]:
  "last_vcommand_class (view (set_dirty_everything w)) = last_vcommand_class (view w)"
  by (simp add: set_dirty_everything_def)

lemma set_status_class [simp]:
  "last_vcommand_class (view (set_status msg w)) = last_vcommand_class (view w)"
  by (simp add: set_status_def)

lemma insert_rune_class:
  assumes "insert_rune E r w = Some w'"
  shows "last_vcommand_class (view w') = last_vcommand_class (view w)"
proof -
  from assms obtain w1 c1 w2 where "action_insert E (cursor (view w)) (EncodeRune r) w = Some w1"
    and "with_view (\<lambda>ls. move_cursor_to E ls c1) w1 = Some w2"
    and "w' = w2\<lparr>view := (view w2)\<lparr>dirty := dirty_everything\<rparr>\<rparr>"
    by (auto simp: insert_rune_def Let_def split: bind_splits)
  with action_insert_class [of E _ _ w w1] with_view_move_cursor_to_class [of E "\<lambda>ls. c1" w1 w2]
  show ?thesis
    by simp
qed

lemma delete_rune_backward_class:
  assumes "delete_rune_backward E w = Some w'"
  shows "last_vcommand_class (view w') = last_vcommand_class (view w)"
proof -
  from assms consider "w' = set_status ''Beginning of buffer'' w"
    | c1 n w1 w2 where "action_delete E c1 n w = Some w1"
      "with_view (\<lambda>ls. move_cursor_to E ls c1) w1 = Some w2" "w' = set_dirty_everything w2"
    by (auto simp: delete_rune_backward_def Let_def split: bind_splits if_splits)
  then show ?thesis
  proof cases
    case 1
    then show ?thesis
      by simp
  next
    case 2
    with action_delete_class [of E c1 n w w1]
      with_view_move_cursor_to_class [of E "\<lambda>ls. c1" w1 w2]
    show ?thesis
      by simp
  qed
qed

lemma delete_rune_class:
  assumes "delete_rune E w = Some w'"
  shows "last_vcommand_class (view w') = last_vcommand_class (view w)"
proof -
  from assms consider "w' = set_status ''End of buffer'' w"
    | c1 n w1 where "action_delete E c1 n w = Some w1" "w' = set_dirty_everything w1"
    by (auto simp: delete_rune_def Let_def split: bind_splits if_splits)
  then show ?thesis
  proof cases
    case 1
    then show ?thesis
      by simp
  next
    case 2
    with action_delete_class [of E c1 n w w1] show ?thesis
      by simp
  qed
qed

lemma kill_line_class:
  assumes "kill_line E w = Some w'"
  shows "last_vcommand_class (view w') = last_vcommand_class (view w)"
proof -
  from assms consider "delete_rune E w = Some w'"
    | c1 n w1 where "action_delete E c1 n w = Some w1" "w' = set_dirty_everything w1"
    by (auto simp: kill_line_def Let_def split: bind_splits if_splits)
  then show ?thesis
  proof cases
    case 1
    then show ?thesis
      by (rule delete_rune_class)
  next
    case 2
    with action_delete_class [of E c1 n w w1] show ?thesis
      by simp
  qed
qed

lemma kill_word_class:
  assumes "kill_word E w = Some w'"
  shows "last_vcommand_class (view w') = last_vcommand_class (view w)"
  using assms
  by (auto simp: kill_word_def Let_def split: if_splits dest: action_delete_class)

lemma kill_region_class:
  assumes "kill_region E w = Some w'"
  shows "last_vcommand_class (view w') = last_vcommand_class (view w)"
proof (cases "is_mark_set (buf w)")
  case False
  with assms have "w' = set_status ''The mark is not set now, so there is no region'' w"
    by (simp add: kill_region_def)
  then show ?thesis
    by simp
next
  case True
  define d where "d = distance E (lines w) (cursor (view w)) (mark (buf w))"
  consider "d = 0" | "d < 0" | "0 < d"
    by arith
  then show ?thesis
  proof cases
    case 1
    with True assms have "w' = w"
      by (simp add: kill_region_def Let_def d_def)
    then show ?thesis
      by simp
  next
    case 2
    with True assms obtain w1 where "action_delete E (mark (buf w)) (- d) w = Some w1"
      "with_view (\<lambda>ls. move_cursor_to E ls (mark (buf w))) w1 = Some w'"
      by (auto simp: kill_region_def Let_def d_def split: bind_splits)
    with action_delete_class [of E _ _ w w1]
      with_view_move_cursor_to_class [of E "\<lambda>ls. mark (buf w)" w1 w']
    show ?thesis
      by simp
  next
    case 3
    with True assms have "action_delete E (cursor (view w)) d w = Some w'"
      by (simp add: kill_region_def Let_def d_def)
    then show ?thesis
      by (rule action_delete_class)
  qed
qed

lemma undo_loop_view:
  "undo_loop E i w = Some w' \<Longrightarrow> view w' = view w"
proof (induction E i w rule: undo_loop.induct)
  case (1 E i w)
  show ?case
  proof (cases "i \<ge> 0")
    case False
    with "1.prems" show ?thesis
      by (subst (asm) undo_loop.simps) simp
  next
    case True
    with "1.prems" obtain h where h: "history (buf w) = Some h"
      and lt: "i < int (length (g_actions (groups w h)))"
      and r: "undo_loop E (i - 1) (revert_action E (g_actions (groups w h) ! nat i) w) = Some w'"
      by (subst (asm) undo_loop.simps) (auto simp: Let_def split: option.splits if_splits)
    from "1.IH" [OF True h refl lt r] show ?thesis
      by simp
  qed
qed

lemma redo_loop_view:
  "redo_loop E n i w = Some w' \<Longrightarrow> view w' = view w"
proof (induction E n i w rule: redo_loop.induct)
  case (1 E n i w)
  show ?case
  proof (cases "i < n")
    case False
    with "1.prems" show ?thesis
      by (subst (asm) redo_loop.simps) simp
  next
    case True
    with "1.prems" obtain h where h: "history (buf w) = Some h"
      and lt: "0 \<le> i \<and> i < int (length (g_actions (groups w h)))"
      and r: "redo_loop E n (i + 1) (apply_action E (g_actions (groups w h) ! nat i) w) = Some w'"
      by (subst (asm) redo_loop.simps) (auto simp: Let_def split: option.splits if_splits)
    from "1.IH" [OF True h refl lt r] show ?thesis
      by simp
  qed
qed

lemma finalize_action_group_view:
  "finalize_action_group w = Some w' \<Longrightarrow> view w' = view w"
  by (auto simp: finalize_action_group_def new_action_group_def set_group_def Let_def
      split: option.splits if_splits)

lemma undo_class:
  assumes "undo E w = Some w'"
  shows "last_vcommand_class (view w') = last_vcommand_class (view w)"
proof -
  from assms consider "w' = w"
    | w1 w2 w3 i c where "finalize_action_group w = Some w1" "undo_loop E i w1 = Some w2"
        "with_view (\<lambda>ls. move_cursor_to E ls c) w2 = Some w3"
        "view w' = (view w3)\<lparr>last_cursor_voffset := cursor_voffset (view w3)\<rparr>"
    by (auto simp: undo_def Let_def split: option.splits if_splits bind_splits)
  then show ?thesis
  proof cases
    case 1
    then show ?thesis
      by simp
  next
    case 2
    with finalize_action_group_view [of w w1] undo_loop_view [of E i w1 w2]
      with_view_move_cursor_to_class [of E "\<lambda>ls. c" w2 w3]
    show ?thesis
      by simp
  qed
qed

lemma redo_class:
  assumes "redo E w = Some w'"
  shows "last_vcommand_class (view w') = last_vcommand_class (view w)"
proof -
  from assms consider "w' = w"
    | w1 w2 w3 i k c where "view w1 = view w" "redo_loop E k i w1 = Some w2"
        "with_view (\<lambda>ls. move_cursor_to E ls c) w2 = Some w3"
        "view w' = (view w3)\<lparr>last_cursor_voffset := cursor_voffset (view w3)\<rparr>"
  proof (cases "\<exists>h n. history (buf w) = Some h \<and> g_next (groups w h) = Some n \<and>
                  length (g_actions (groups w n)) \<noteq> 0")
    case False
    with assms have "w' = w"
      by (auto simp: redo_def split: option.splits if_splits)
    with that show ?thesis
      by blast
  next
    case True
    then obtain h n where hn: "history (buf w) = Some h" "g_next (groups w h) = Some n"
      "length (g_actions (groups w n)) \<noteq> 0"
      by blast
    let ?w1 = "w\<lparr>buf := (buf w)\<lparr>history := Some n\<rparr>\<rparr>"
    from assms hn obtain w2 h2 w3 where
      "redo_loop E (int (length (g_actions (groups ?w1 n)))) 0 ?w1 = Some w2"
      "with_view (\<lambda>ls. move_cursor_to E ls (g_after (groups w2 h2))) w2 = Some w3"
      "w' = w3\<lparr>view := (view w3)\<lparr>last_cursor_voffset := cursor_voffset (view w3)\<rparr>\<rparr>"
      by (auto simp: redo_def Let_def split: bind_splits)
    with that(2) [of ?w1 _ _ w2 _ w3] show ?thesis
      by simp
  qed
  then show ?thesis
  proof cases
    case 1
    then show ?thesis
      by simp
  next
    case 2
    with redo_loop_view [of E k i w1 w2]
      with_view_move_cursor_to_class [of E "\<lambda>ls. c" w2 w3]
    show ?thesis
      by simp
  qed
qed

lemmas vcommand_defs =
  vcommand_movement_beg_def vcommand_move_cursor_forward_def
  vcommand_move_cursor_backward_def vcommand_move_cursor_word_forward_def
  vcommand_move_cursor_word_backward_def vcommand_move_cursor_next_line_def
  vcommand_move_cursor_prev_line_def vcommand_move_cursor_beginning_of_line_def
  vcommand_move_cursor_end_of_line_def vcommand_move_cursor_beginning_of_file_def
  vcommand_move_cursor_end_of_file_def vcommand_move_view_half_forward_def
  vcommand_move_view_half_backward_def vcommand_set_mark_def
  vcommand_swap_cursor_and_mark_def vcommand_movement_end_def
  vcommand_insertion_beg_def vcommand_insert_rune_def vcommand_insertion_end_def
  vcommand_deletion_beg_def vcommand_delete_rune_backward_def vcommand_delete_rune_def
  vcommand_kill_line_def vcommand_kill_word_def vcommand_kill_region_def
  vcommand_deletion_end_def vcommand_history_beg_def vcommand_undo_def vcommand_redo_def
  vcommand_history_end_def vcommand_misc_beg_def vcommand_autocompl_init_def
  vcommand_autocompl_move_cursor_up_def vcommand_autocompl_move_cursor_down_def
  vcommand_autocompl_finalize_def vcommand_misc_end_def

lemma run_vcommand_class:
  assumes "cmd \<noteq> vcommand_autocompl_finalize" and "run_vcommand E cmd arg w = Some w'"
  shows "last_vcommand_class (view w') = last_vcommand_class (view w)"
proof (cases "vcommand_class_of cmd = vcommand_class_movement")
  case True
  from movement_same_history [OF True assms(2)] show ?thesis
    by (simp add: same_history_def)
next
  case False
  then have "cmd \<le> 0 \<or> 15 \<le> cmd"
    by (cases "0 < cmd \<and> cmd < 15") (auto simp: vcommand_class_of_def vcommand_defs)
  then have ne: "cmd \<noteq> 1" "cmd \<noteq> 2" "cmd \<noteq> 3" "cmd \<noteq> 4" "cmd \<noteq> 5" "cmd \<noteq> 6" "cmd \<noteq> 7"
    "cmd \<noteq> 8" "cmd \<noteq> 9" "cmd \<noteq> 10" "cmd \<noteq> 11" "cmd \<noteq> 12" "cmd \<noteq> 13" "cmd \<noteq> 14"
    by auto
  from assms(1) have nf: "cmd \<noteq> 34"
    by (simp add: vcommand_defs)
  consider "cmd = 17" | "cmd = 20" | "cmd = 21" | "cmd = 22" | "cmd = 23" | "cmd = 24"
    | "cmd = 27" | "cmd = 28" | "cmd = 31" | "cmd = 32" | "cmd = 33"
    | "cmd \<noteq> 17 \<and> cmd \<noteq> 20 \<and> cmd \<noteq> 21 \<and> cmd \<noteq> 22 \<and> cmd \<noteq> 23 \<and> cmd \<noteq> 24 \<and>
       cmd \<noteq> 27 \<and> cmd \<noteq> 28 \<and> cmd \<noteq> 31 \<and> cmd \<noteq> 32 \<and> cmd \<noteq> 33"
    by blast
  then show ?thesis
  proof cases
    case 1
    with assms(2) have "insert_rune E arg w = Some w'"
      by (simp add: run_vcommand_def vcommand_defs)
    then show ?thesis
      by (rule insert_rune_class)
  next
    case 2
    with assms(2) have "delete_rune_backward E w = Some w'"
      by (simp add: run_vcommand_def vcommand_defs)
    then show ?thesis
      by (rule delete_rune_backward_class)
  next
    case 3
    with assms(2) have "delete_rune E w = Some w'"
      by (simp add: run_vcommand_def vcommand_defs)
    then show ?thesis
      by (rule delete_rune_class)
  next
    case 4
    with assms(2) have "kill_line E w = Some w'"
      by (simp add: run_vcommand_def vcommand_defs)
    then show ?thesis
      by (rule kill_line_class)
  next
    case 5
    with assms(2) have "kill_word E w = Some w'"
      by (simp add: run_vcommand_def vcommand_defs)
    then show ?thesis
      by (rule kill_word_class)
  next
    case 6
    with assms(2) have "kill_region E w = Some w'"
      by (simp add: run_vcommand_def vcommand_defs)
    then show ?thesis
      by (rule kill_region_class)
  next
    case 7
    with assms(2) have "undo E w = Some w'"
      by (simp add: run_vcommand_def vcommand_defs)
    then show ?thesis
      by (rule undo_class)
  next
    case 8
    with assms(2) have "redo E w = Some w'"
      by (simp add: run_vcommand_def vcommand_defs)
    then show ?thesis
      by (rule redo_class)
  next
    case 9
    with assms(2) have "w' = init_autocompl E w"
      by (simp add: run_vcommand_def vcommand_defs)
    then show ?thesis
      by (simp add: init_autocompl_def)
  next
    case 10
    with assms(2) show ?thesis
      by (auto simp: run_vcommand_def vcommand_defs split: option.splits)
  next
    case 11
    with assms(2) show ?thesis
      by (auto simp: run_vcommand_def vcommand_defs split: option.splits)
  next
    case 12
    with assms(2) ne nf have "w' = w"
      by (simp add: run_vcommand_def vcommand_defs)
    then show ?thesis
      by simp
  qed
qed

lemma on_vcommand_class:
  assumes "cmd \<noteq> vcommand_autocompl_finalize" and "on_vcommand E cmd arg w = Some w'"
  shows "last_vcommand_class (view w') = vcommand_class_of cmd"
proof (cases "vcommand_class_of cmd \<noteq> last_vcommand_class (view w)")
  case True
  let ?w0 = "w\<lparr>view := (view w)\<lparr>last_vcommand_class := vcommand_class_of cmd\<rparr>\<rparr>"
  from True assms(2) obtain w1 where w1: "finalize_action_group ?w0 = Some w1"
    and r: "run_vcommand E cmd arg w1 = Some w'"
    by (auto simp: on_vcommand_def Let_def split: bind_splits)
  from finalize_action_group_view [OF w1] run_vcommand_class [OF assms(1) r] show ?thesis
    by simp
next
  case False
  with assms(2) have "run_vcommand E cmd arg w = Some w'"
    by (simp add: on_vcommand_def Let_def)
  from run_vcommand_class [OF assms(1) this] False show ?thesis
    by simp
qed

lemma finalize_action_group_result:
  assumes "history (buf w) = Some h" and "h < groups_new w"
  shows "\<exists>w1. finalize_action_group w = Some w1 \<and> buf w1 = buf w \<and> view w1 = view w \<and>
           (g_next (groups w h) \<noteq> None \<longrightarrow> w1 = w) \<and>
           (g_next (groups w h) = None \<longrightarrow>
              groups_new w1 = Suc (groups_new w) \<and>
              g_next (groups w1 h) = Some (groups_new w) \<and>
              g_next (groups w1 (groups_new w)) = None \<and>
              g_actions (groups w1 h) = g_actions (groups w h) \<and>
              g_prev (groups w1 h) = g_prev (groups w h) \<and>
              (\<forall>x. x \<noteq> h \<and> x \<noteq> groups_new w \<longrightarrow> groups w1 x = groups w x))"
  using assms
  by (auto simp: finalize_action_group_def new_action_group_def set_group_def Let_def
      zero_group_def)

text \<open>
  \<open>on_vcommand\<close> with \<open>insert_rune\<close>: the open group is finalized first when the class
  changes (\<open>wf\<close>), then the action is recorded (\<open>we\<close>), then the cursor moves.
\<close>

lemma on_vcommand_insert_rune:
  assumes "on_vcommand E vcommand_insert_rune r w = Some w'"
  shows "\<exists>wf we h ls.
           (if last_vcommand_class (view w) = vcommand_class_insertion then wf = w
            else finalize_action_group
                   (w\<lparr>view := (view w)\<lparr>last_vcommand_class := vcommand_class_insertion\<rparr>\<rparr>) =
                 Some wf) \<and>
           history (buf wf) = Some h \<and>
           edited E wf h \<lparr>a_what = action_type_insert, a_data = EncodeRune r,
                           a_cursor = cursor (view w), a_lines = ls\<rparr> we \<and>
           groups w' = groups we \<and> groups_new w' = groups_new we \<and>
           history (buf w') = history (buf we)"
proof -
  have cls: "vcommand_class_of vcommand_insert_rune = vcommand_class_insertion"
    by (simp add: vcommand_class_of_def vcommand_defs)
  have run: "run_vcommand E vcommand_insert_rune r x = insert_rune E r x" for x
    by (simp add: run_vcommand_def vcommand_defs)
  from assms obtain wf where
    wf: "(if last_vcommand_class (view w) = vcommand_class_insertion then wf = w
          else finalize_action_group
                 (w\<lparr>view := (view w)\<lparr>last_vcommand_class := vcommand_class_insertion\<rparr>\<rparr>) =
               Some wf)"
    and ins: "insert_rune E r wf = Some w'"
    by (auto simp: on_vcommand_def Let_def cls run split: bind_splits if_splits)
  have vc: "cursor (view wf) = cursor (view w)"
    using wf by (auto split: if_splits dest: finalize_action_group_view)
  from ins obtain we c1 w2 where we: "action_insert E (cursor (view wf)) (EncodeRune r) wf = Some we"
    and w2: "with_view (\<lambda>ls. move_cursor_to E ls c1) we = Some w2"
    and w': "w' = w2\<lparr>view := (view w2)\<lparr>dirty := dirty_everything\<rparr>\<rparr>"
    by (auto simp: insert_rune_def Let_def split: bind_splits)
  from we obtain h where h: "history (buf wf) = Some h"
    by (cases "history (buf wf)") (auto simp: action_insert_def maybe_next_action_group_def)
  from action_insert_edited [OF h, of E "cursor (view wf)" "EncodeRune r"] we
  obtain ls where ed: "edited E wf h \<lparr>a_what = action_type_insert, a_data = EncodeRune r,
                           a_cursor = cursor (view wf), a_lines = ls\<rparr> we"
    by auto
  from with_view_keeps [OF w2] have "groups w' = groups we" "groups_new w' = groups_new we"
    "history (buf w') = history (buf we)"
    by (simp_all add: w')
  with wf h ed show ?thesis
    unfolding vc by blast
qed

lemma insert_rune_not_finalize: "vcommand_insert_rune \<noteq> vcommand_autocompl_finalize"
  by (simp add: vcommand_defs)

lemma class_insert_rune: "vcommand_class_of vcommand_insert_rune = vcommand_class_insertion"
  by (simp add: vcommand_class_of_def vcommand_defs)

text \<open>
  The state an insertion through \<open>on_vcommand\<close> leaves: the history pointer \<open>g\<close> is an
  allocated group with no successor, whose actions end with the insertion.
\<close>

lemma after_insert_rune:
  assumes "on_vcommand E vcommand_insert_rune r w = Some w'"
  shows "\<exists>g as a. history (buf w') = Some g \<and> g_next (groups w' g) = None \<and>
           a_what a = action_type_insert \<and> a_data a = EncodeRune r \<and>
           a_cursor a = cursor (view w) \<and>
           g_actions (groups w' g) = group_append E as a \<and>
           last_vcommand_class (view w') = vcommand_class_insertion \<and>
           (\<forall>h. history (buf w) = Some h \<and> h < groups_new w \<and>
                (\<forall>n. g_next (groups w h) = Some n \<longrightarrow> n < groups_new w) \<longrightarrow>
                g < groups_new w') \<and>
           (last_vcommand_class (view w) = vcommand_class_insertion \<longrightarrow>
              (\<forall>h. history (buf w) = Some h \<and> g_next (groups w h) = None \<longrightarrow>
                 g = h \<and> as = g_actions (groups w h)))"
proof -
  from on_vcommand_insert_rune [OF assms] obtain wf we h ls where
    wf: "if last_vcommand_class (view w) = vcommand_class_insertion then wf = w
         else finalize_action_group
                (w\<lparr>view := (view w)\<lparr>last_vcommand_class := vcommand_class_insertion\<rparr>\<rparr>) =
              Some wf"
    and h: "history (buf wf) = Some h"
    and ed: "edited E wf h \<lparr>a_what = action_type_insert, a_data = EncodeRune r,
                           a_cursor = cursor (view w), a_lines = ls\<rparr> we"
    and k: "groups w' = groups we" "groups_new w' = groups_new we"
      "history (buf w') = history (buf we)"
    by blast
  let ?a = "\<lparr>a_what = action_type_insert, a_data = EncodeRune r,
                           a_cursor = cursor (view w), a_lines = ls\<rparr>"
  define g where "g = (case g_next (groups wf h) of None \<Rightarrow> h | Some n \<Rightarrow> n)"
  define as where "as = (if g_next (groups wf h) = None then g_actions (groups wf h) else [])"
  from ed have e: "history (buf we) = Some g" "g_next (groups we g) = None"
    "g_actions (groups we g) = group_append E as ?a" "groups_new we = groups_new wf"
    unfolding edited_def Let_def g_def [symmetric] as_def [symmetric] by simp_all
  have hw: "history (buf w) = Some h"
    using wf h by (auto split: if_splits simp: finalize_action_group_def new_action_group_def
        set_group_def Let_def split: option.splits)
  have alloc: "g < groups_new w'"
    if a: "h < groups_new w" "\<forall>n. g_next (groups w h) = Some n \<longrightarrow> n < groups_new w"
  proof (cases "last_vcommand_class (view w) = vcommand_class_insertion")
    case True
    with wf have "wf = w"
      by simp
    with a e(4) k(2) show ?thesis
      by (auto simp: g_def split: option.splits)
  next
    case False
    let ?w0 = "w\<lparr>view := (view w)\<lparr>last_vcommand_class := vcommand_class_insertion\<rparr>\<rparr>"
    from False wf have f: "finalize_action_group ?w0 = Some wf"
      by simp
    have "history (buf ?w0) = Some h" "h < groups_new ?w0"
      using hw a(1) by simp_all
    from finalize_action_group_result [OF this] f
    have r: "g_next (groups ?w0 h) \<noteq> None \<longrightarrow> wf = ?w0"
      "g_next (groups ?w0 h) = None \<longrightarrow>
         groups_new wf = Suc (groups_new ?w0) \<and> g_next (groups wf h) = Some (groups_new ?w0)"
      by auto
    show ?thesis
    proof (cases "g_next (groups w h)")
      case None
      with r(2) have "groups_new wf = Suc (groups_new w)" "g = groups_new w"
        by (simp_all add: g_def)
      with e(4) k(2) show ?thesis
        by simp
    next
      case (Some n)
      with r(1) have "wf = ?w0"
        by simp
      with Some a(2) e(4) k(2) show ?thesis
        by (simp add: g_def)
    qed
  qed
  have same: "g = h' \<and> as = g_actions (groups w h')"
    if "last_vcommand_class (view w) = vcommand_class_insertion"
      "history (buf w) = Some h'" "g_next (groups w h') = None" for h'
  proof -
    from that(1) wf have "wf = w"
      by simp
    with that(2,3) h show ?thesis
      by (simp add: g_def as_def)
  qed
  have A: "\<forall>h. history (buf w) = Some h \<and> h < groups_new w \<and>
                (\<forall>n. g_next (groups w h) = Some n \<longrightarrow> n < groups_new w) \<longrightarrow>
                g < groups_new w'"
    using alloc hw by auto
  have B: "last_vcommand_class (view w) = vcommand_class_insertion \<longrightarrow>
              (\<forall>h. history (buf w) = Some h \<and> g_next (groups w h) = None \<longrightarrow>
                 g = h \<and> as = g_actions (groups w h))"
    using same by blast
  have C: "history (buf w') = Some g" "g_next (groups w' g) = None"
    "g_actions (groups w' g) = group_append E as ?a"
    using e k by simp_all
  have D: "last_vcommand_class (view w') = vcommand_class_insertion"
    using on_vcommand_class [OF insert_rune_not_finalize assms] class_insert_rune by simp
  have "history (buf w') = Some g \<and> g_next (groups w' g) = None \<and>
           a_what ?a = action_type_insert \<and> a_data ?a = EncodeRune r \<and>
           a_cursor ?a = cursor (view w) \<and>
           g_actions (groups w' g) = group_append E as ?a \<and>
           last_vcommand_class (view w') = vcommand_class_insertion \<and>
           (\<forall>h. history (buf w) = Some h \<and> h < groups_new w \<and>
                (\<forall>n. g_next (groups w h) = Some n \<longrightarrow> n < groups_new w) \<longrightarrow>
                g < groups_new w') \<and>
           (last_vcommand_class (view w) = vcommand_class_insertion \<longrightarrow>
              (\<forall>h. history (buf w) = Some h \<and> g_next (groups w h) = None \<longrightarrow>
                 g = h \<and> as = g_actions (groups w h)))"
    using A B C D by simp
  then show ?thesis
    by (intro exI)
qed

lemma two_insertions_one_group:
  assumes "on_vcommand E vcommand_insert_rune r1 w = Some w1"
    and "on_vcommand E vcommand_insert_rune r2 w1 = Some w2"
  shows "\<exists>g as a1 a2. history (buf w1) = Some g \<and> history (buf w2) = Some g \<and>
           a_data a1 = EncodeRune r1 \<and> a_data a2 = EncodeRune r2 \<and>
           g_actions (groups w1 g) = group_append E as a1 \<and>
           g_actions (groups w2 g) = group_append E (group_append E as a1) a2"
proof -
  from after_insert_rune [OF assms(1)] obtain g as a1 where
    1: "history (buf w1) = Some g" "g_next (groups w1 g) = None"
    "a_data a1 = EncodeRune r1" "g_actions (groups w1 g) = group_append E as a1"
    "last_vcommand_class (view w1) = vcommand_class_insertion"
    by blast
  from after_insert_rune [OF assms(2)] obtain g' as' a2 where
    2: "history (buf w2) = Some g'" "a_data a2 = EncodeRune r2"
    "g_actions (groups w2 g') = group_append E as' a2"
    "last_vcommand_class (view w1) = vcommand_class_insertion \<longrightarrow>
       (\<forall>h. history (buf w1) = Some h \<and> g_next (groups w1 h) = None \<longrightarrow>
          g' = h \<and> as' = g_actions (groups w1 h))"
    by blast
  from 1 2(4) have "g' = g" "as' = group_append E as a1"
    by auto
  with 1 2 show ?thesis
    by blast
qed

lemma movement_splits_groups:
  assumes hist: "history (buf w) = Some h" "h < groups_new w"
      "\<forall>n. g_next (groups w h) = Some n \<longrightarrow> n < groups_new w"
    and m: "vcommand_class_of m = vcommand_class_movement"
    and s1: "on_vcommand E vcommand_insert_rune r1 w = Some w1"
    and s2: "on_vcommand E m arg w1 = Some w2"
    and s3: "on_vcommand E vcommand_insert_rune r2 w2 = Some w3"
  shows "\<exists>g1 g3 as a1 a3. history (buf w1) = Some g1 \<and> history (buf w3) = Some g3 \<and>
           g3 \<noteq> g1 \<and> g_prev (groups w3 g3) = Some g1 \<and> g_next (groups w3 g1) = Some g3 \<and>
           a_data a1 = EncodeRune r1 \<and> a_data a3 = EncodeRune r2 \<and>
           g_actions (groups w1 g1) = group_append E as a1 \<and>
           g_actions (groups w3 g1) = group_append E as a1 \<and>
           g_actions (groups w3 g3) = group_append E [] a3"
proof -
  from after_insert_rune [OF s1] hist obtain g1 as a1 where
    1: "history (buf w1) = Some g1" "g_next (groups w1 g1) = None"
    "a_data a1 = EncodeRune r1" "g_actions (groups w1 g1) = group_append E as a1"
    "last_vcommand_class (view w1) = vcommand_class_insertion" "g1 < groups_new w1"
    by blast
  let ?w1 = "w1\<lparr>view := (view w1)\<lparr>last_vcommand_class := vcommand_class_of m\<rparr>\<rparr>"
  from s2 m 1(5) obtain wf2 where f2: "finalize_action_group ?w1 = Some wf2"
    and r2: "run_vcommand E m arg wf2 = Some w2"
    by (auto simp: on_vcommand_def Let_def split: bind_splits)
  have "history (buf ?w1) = Some g1" "g1 < groups_new ?w1"
    using 1(1,6) by simp_all
  from finalize_action_group_result [OF this] f2 1(2)
  have wf2: "buf wf2 = buf w1" "view wf2 = view ?w1" "groups_new wf2 = Suc (groups_new w1)"
    "g_next (groups wf2 g1) = Some (groups_new w1)"
    "g_actions (groups wf2 g1) = g_actions (groups w1 g1)"
    by auto
  from movement_same_history [OF m r2]
  have w2: "groups w2 = groups wf2" "groups_new w2 = groups_new wf2"
    "history (buf w2) = history (buf wf2)"
    "last_vcommand_class (view w2) = last_vcommand_class (view wf2)"
    by (simp_all add: same_history_def)
  have c2: "last_vcommand_class (view w2) = vcommand_class_movement"
    using w2(4) wf2(2) m by simp
  from on_vcommand_insert_rune [OF s3] c2 obtain wf3 we h3 ls where
    f3: "finalize_action_group
           (w2\<lparr>view := (view w2)\<lparr>last_vcommand_class := vcommand_class_insertion\<rparr>\<rparr>) = Some wf3"
    and h3: "history (buf wf3) = Some h3"
    and ed: "edited E wf3 h3 \<lparr>a_what = action_type_insert, a_data = EncodeRune r2,
                           a_cursor = cursor (view w2), a_lines = ls\<rparr> we"
    and k: "groups w3 = groups we" "history (buf w3) = history (buf we)"
    by auto
  let ?w2 = "w2\<lparr>view := (view w2)\<lparr>last_vcommand_class := vcommand_class_insertion\<rparr>\<rparr>"
  let ?a3 = "\<lparr>a_what = action_type_insert, a_data = EncodeRune r2,
                           a_cursor = cursor (view w2), a_lines = ls\<rparr>"
  have "history (buf ?w2) = Some g1" "g1 < groups_new ?w2"
    using w2(2,3) wf2(1,3) 1(1,6) by simp_all
  from finalize_action_group_result [OF this] f3 w2(1) wf2(4)
  have wf3: "wf3 = ?w2"
    by auto
  then have h3': "h3 = g1" and n3: "g_next (groups wf3 h3) = Some (groups_new w1)"
    and g3: "groups wf3 = groups wf2"
    using h3 w2(1,3) wf2(1,4) 1(1) by simp_all
  from ed n3 have e: "history (buf we) = Some (groups_new w1)"
    "g_prev (groups we (groups_new w1)) = Some h3"
    "g_actions (groups we (groups_new w1)) = group_append E [] ?a3"
    "\<forall>x. x \<noteq> groups_new w1 \<longrightarrow> groups we x = groups wf3 x"
    unfolding edited_def Let_def by simp_all
  from e(4) 1(6) have "groups we g1 = groups wf3 g1"
    by simp
  with g3 have same1: "groups w3 g1 = groups wf2 g1"
    using k(1) by simp
  have "history (buf w3) = Some (groups_new w1)" "groups_new w1 \<noteq> g1"
    "g_prev (groups w3 (groups_new w1)) = Some g1"
    "g_next (groups w3 g1) = Some (groups_new w1)"
    "a_data ?a3 = EncodeRune r2"
    "g_actions (groups w3 g1) = group_append E as a1"
    "g_actions (groups w3 (groups_new w1)) = group_append E [] ?a3"
    using e k h3' 1(4,6) same1 wf2(4,5) by simp_all
  with 1(1,3,4) show ?thesis
    by blast
qed

text \<open>
  Claim C4. \<open>last_vcommand_class\<close> of the view is the class of the previous command:
  \<open>on_vcommand\<close> leaves the class of the command there (for every command but
  \<open>autocompl_finalize\<close>, whose effect is in another file).
  \<^item> A command whose class differs from it runs after \<open>finalize_action_group\<close>; a
    command of the same class runs at once.
  \<^item> Two \<open>insert_rune\<close> commands in a row record their actions in one group: after the
    second the history pointer is the group \<open>g\<close> it was after the first, and the
    actions of \<open>g\<close> are those after the first with the second action appended.
  \<^item> With a movement command between them (the history pointer and its successor
    being allocated groups) the second insertion is recorded in another group \<open>g3\<close>,
    the successor of the group \<open>g1\<close> of the first, which keeps its actions.
\<close>

theorem class_change_closes_group:
  "(vcommand_class_of cmd \<noteq> last_vcommand_class (view w) \<longrightarrow>
      on_vcommand E cmd arg w =
        Option.bind
          (finalize_action_group
             (w\<lparr>view := (view w)\<lparr>last_vcommand_class := vcommand_class_of cmd\<rparr>\<rparr>))
          (run_vcommand E cmd arg)) \<and>
   (vcommand_class_of cmd = last_vcommand_class (view w) \<longrightarrow>
      on_vcommand E cmd arg w = run_vcommand E cmd arg w) \<and>
   (\<forall>w'. cmd \<noteq> vcommand_autocompl_finalize \<and> on_vcommand E cmd arg w = Some w' \<longrightarrow>
      last_vcommand_class (view w') = vcommand_class_of cmd) \<and>
   (\<forall>w1 w2.
      on_vcommand E vcommand_insert_rune r1 w = Some w1 \<and>
      on_vcommand E vcommand_insert_rune r2 w1 = Some w2 \<longrightarrow>
      (\<exists>g as a1 a2. history (buf w1) = Some g \<and> history (buf w2) = Some g \<and>
         a_data a1 = EncodeRune r1 \<and> a_data a2 = EncodeRune r2 \<and>
         g_actions (groups w1 g) = group_append E as a1 \<and>
         g_actions (groups w2 g) = group_append E (group_append E as a1) a2)) \<and>
   (\<forall>h m marg w1 w2 w3.
      history (buf w) = Some h \<and> h < groups_new w \<and>
      (\<forall>n. g_next (groups w h) = Some n \<longrightarrow> n < groups_new w) \<and>
      vcommand_class_of m = vcommand_class_movement \<and>
      on_vcommand E vcommand_insert_rune r1 w = Some w1 \<and>
      on_vcommand E m marg w1 = Some w2 \<and>
      on_vcommand E vcommand_insert_rune r2 w2 = Some w3 \<longrightarrow>
      (\<exists>g1 g3 as a1 a3. history (buf w1) = Some g1 \<and> history (buf w3) = Some g3 \<and>
         g3 \<noteq> g1 \<and> g_prev (groups w3 g3) = Some g1 \<and> g_next (groups w3 g1) = Some g3 \<and>
         a_data a1 = EncodeRune r1 \<and> a_data a3 = EncodeRune r2 \<and>
         g_actions (groups w1 g1) = group_append E as a1 \<and>
         g_actions (groups w3 g1) = group_append E as a1 \<and>
         g_actions (groups w3 g3) = group_append E [] a3))"
proof -
  have A: "vcommand_class_of cmd \<noteq> last_vcommand_class (view w) \<longrightarrow>
      on_vcommand E cmd arg w =
        Option.bind
          (finalize_action_group
             (w\<lparr>view := (view w)\<lparr>last_vcommand_class := vcommand_class_of cmd\<rparr>\<rparr>))
          (run_vcommand E cmd arg)"
    by (simp add: on_vcommand_def Let_def)
  have B: "vcommand_class_of cmd = last_vcommand_class (view w) \<longrightarrow>
      on_vcommand E cmd arg w = run_vcommand E cmd arg w"
    by (simp add: on_vcommand_def Let_def)
  have C: "\<forall>w'. cmd \<noteq> vcommand_autocompl_finalize \<and> on_vcommand E cmd arg w = Some w' \<longrightarrow>
      last_vcommand_class (view w') = vcommand_class_of cmd"
    using on_vcommand_class by blast
  have D: "\<forall>w1 w2.
      on_vcommand E vcommand_insert_rune r1 w = Some w1 \<and>
      on_vcommand E vcommand_insert_rune r2 w1 = Some w2 \<longrightarrow>
      (\<exists>g as a1 a2. history (buf w1) = Some g \<and> history (buf w2) = Some g \<and>
         a_data a1 = EncodeRune r1 \<and> a_data a2 = EncodeRune r2 \<and>
         g_actions (groups w1 g) = group_append E as a1 \<and>
         g_actions (groups w2 g) = group_append E (group_append E as a1) a2)"
    using two_insertions_one_group by blast
  have F: "\<forall>h m marg w1 w2 w3.
      history (buf w) = Some h \<and> h < groups_new w \<and>
      (\<forall>n. g_next (groups w h) = Some n \<longrightarrow> n < groups_new w) \<and>
      vcommand_class_of m = vcommand_class_movement \<and>
      on_vcommand E vcommand_insert_rune r1 w = Some w1 \<and>
      on_vcommand E m marg w1 = Some w2 \<and>
      on_vcommand E vcommand_insert_rune r2 w2 = Some w3 \<longrightarrow>
      (\<exists>g1 g3 as a1 a3. history (buf w1) = Some g1 \<and> history (buf w3) = Some g3 \<and>
         g3 \<noteq> g1 \<and> g_prev (groups w3 g3) = Some g1 \<and> g_next (groups w3 g1) = Some g3 \<and>
         a_data a1 = EncodeRune r1 \<and> a_data a3 = EncodeRune r2 \<and>
         g_actions (groups w1 g1) = group_append E as a1 \<and>
         g_actions (groups w3 g1) = group_append E as a1 \<and>
         g_actions (groups w3 g3) = group_append E [] a3)"
  proof (intro allI impI)
    fix h m marg w1 w2 w3
    assume a: "history (buf w) = Some h \<and> h < groups_new w \<and>
      (\<forall>n. g_next (groups w h) = Some n \<longrightarrow> n < groups_new w) \<and>
      vcommand_class_of m = vcommand_class_movement \<and>
      on_vcommand E vcommand_insert_rune r1 w = Some w1 \<and>
      on_vcommand E m marg w1 = Some w2 \<and>
      on_vcommand E vcommand_insert_rune r2 w2 = Some w3"
    then have "history (buf w) = Some h" "h < groups_new w"
      "\<forall>n. g_next (groups w h) = Some n \<longrightarrow> n < groups_new w"
      "vcommand_class_of m = vcommand_class_movement"
      "on_vcommand E vcommand_insert_rune r1 w = Some w1"
      "on_vcommand E m marg w1 = Some w2"
      "on_vcommand E vcommand_insert_rune r2 w2 = Some w3"
      by blast+
    then show "\<exists>g1 g3 as a1 a3. history (buf w1) = Some g1 \<and> history (buf w3) = Some g3 \<and>
         g3 \<noteq> g1 \<and> g_prev (groups w3 g3) = Some g1 \<and> g_next (groups w3 g1) = Some g3 \<and>
         a_data a1 = EncodeRune r1 \<and> a_data a3 = EncodeRune r2 \<and>
         g_actions (groups w1 g1) = group_append E as a1 \<and>
         g_actions (groups w3 g1) = group_append E as a1 \<and>
         g_actions (groups w3 g3) = group_append E [] a3"
      by (rule movement_splits_groups)
  qed
  from A B C D F show ?thesis
    by (intro conjI)
qed

text \<open>A sequence of commands run through \<open>on_vcommand\<close>.\<close>

fun run_commands ::
  "('ac, 'x) env \<Rightarrow> (vcommand \<times> rune) list \<Rightarrow> ('ac, 'x) world \<Rightarrow> ('ac, 'x) world option" where
  "run_commands E [] w = Some w"
| "run_commands E (c # cs) w = Option.bind (on_vcommand E (fst c) (snd c) w) (run_commands E cs)"

lemma world_ab_run:
  "case run_commands spec_env [(vcommand_insert_rune, 0x61), (vcommand_insert_rune, 0x62)] world0
   of None \<Rightarrow> False
   | Some w \<Rightarrow> buf w = buf world_ab \<and> view w = view world_ab \<and> groups w 0 = groups_ab 0 \<and>
       groups w 1 = groups_ab 1 \<and> groups_new w = 2 \<and> lines w 0 = lines world_ab 0 \<and>
       lines_new w = 1 \<and> sr w = []"
  by code_simp

theorem class_change_closes_group_witness:
  "history (buf world0) = Some 0 \<and> 0 < groups_new world0 \<and>
   g_next (groups world0 0) = Some 1 \<and> 1 < groups_new world0 \<and>
   vcommand_class_of vcommand_move_cursor_backward = vcommand_class_movement \<and>
   last_vcommand_class (view world0) = vcommand_class_none \<and>
   vcommand_class_of vcommand_insert_rune = vcommand_class_insertion \<and>
   on_vcommand spec_env vcommand_insert_rune 0x61 world0 =
     Option.bind
       (finalize_action_group
          (world0\<lparr>view := (view world0)\<lparr>last_vcommand_class := vcommand_class_insertion\<rparr>\<rparr>))
       (run_vcommand spec_env vcommand_insert_rune 0x61) \<and>
   (\<exists>w1 w2 a1 a2.
      on_vcommand spec_env vcommand_insert_rune 0x61 world0 = Some w1 \<and>
      on_vcommand spec_env vcommand_insert_rune 0x62 w1 = Some w2 \<and>
      last_vcommand_class (view w1) = vcommand_class_insertion \<and>
      history (buf w1) = Some 1 \<and> history (buf w2) = Some 1 \<and>
      a_data a1 = [0x61] \<and> a_data a2 = [0x62] \<and> g_actions (groups w2 1) = [a1, a2]) \<and>
   (\<exists>w1 w2 w3 a1 a3.
      on_vcommand spec_env vcommand_insert_rune 0x61 world0 = Some w1 \<and>
      on_vcommand spec_env vcommand_move_cursor_backward 0 w1 = Some w2 \<and>
      on_vcommand spec_env vcommand_insert_rune 0x62 w2 = Some w3 \<and>
      history (buf w1) = Some 1 \<and> history (buf w3) = Some 2 \<and>
      g_prev (groups w3 2) = Some 1 \<and> a_data a1 = [0x61] \<and> a_data a3 = [0x62] \<and>
      g_actions (groups w3 1) = [a1] \<and> g_actions (groups w3 2) = [a3] \<and>
      line_data (lines w3 0) = [0x62, 0x61])"
proof -
  have a: "history (buf world0) = Some 0" "0 < groups_new world0"
    "g_next (groups world0 0) = Some 1" "1 < groups_new world0"
    "vcommand_class_of vcommand_move_cursor_backward = vcommand_class_movement"
    "last_vcommand_class (view world0) = vcommand_class_none"
    "vcommand_class_of vcommand_insert_rune = vcommand_class_insertion"
    by code_simp+
  have app: "group_append spec_env xs x = xs @ [x]" for xs x
    by (simp add: spec_env_def)
  have enc: "EncodeRune 0x61 = [0x61]" "EncodeRune 0x62 = [0x62]"
    by code_simp+
  note t = class_change_closes_group [where cmd = vcommand_insert_rune and w = world0
      and E = spec_env and arg = "0x61" and ?r1.0 = "0x61" and ?r2.0 = "0x62"]
  from t a(6,7) have A: "on_vcommand spec_env vcommand_insert_rune 0x61 world0 =
     Option.bind
       (finalize_action_group
          (world0\<lparr>view := (view world0)\<lparr>last_vcommand_class := vcommand_class_insertion\<rparr>\<rparr>))
       (run_vcommand spec_env vcommand_insert_rune 0x61)"
    by simp
  from world_ab_run obtain w1 w2
    where s: "on_vcommand spec_env vcommand_insert_rune 0x61 world0 = Some w1"
      "on_vcommand spec_env vcommand_insert_rune 0x62 w1 = Some w2"
      and q: "buf w2 = buf world_ab" "groups w2 1 = groups_ab 1"
    by (auto split: option.splits bind_splits)
  have p: "history (buf w2) = Some 1" "length (g_actions (groups w2 1)) = 2"
    unfolding q by (simp_all add: world_ab_def groups_ab_def)
  from t s obtain g as a1 a2 where g: "history (buf w1) = Some g" "history (buf w2) = Some g"
    "a_data a1 = EncodeRune 0x61" "a_data a2 = EncodeRune 0x62"
    "g_actions (groups w2 g) = group_append spec_env (group_append spec_env as a1) a2"
    by blast
  from t s(1) have c1: "last_vcommand_class (view w1) = vcommand_class_insertion"
    using a(7) insert_rune_not_finalize by metis
  from g(2) p(1) have g1: "g = 1"
    by simp
  from g(5) p(2) have "length (as @ [a1, a2]) = 2"
    unfolding g1 by (simp add: app)
  then have "as = []"
    by simp
  with g(5) have "g_actions (groups w2 1) = [a1, a2]"
    unfolding g1 by (simp add: app)
  with s g g1 c1 enc have B: "\<exists>w1 w2 a1 a2.
      on_vcommand spec_env vcommand_insert_rune 0x61 world0 = Some w1 \<and>
      on_vcommand spec_env vcommand_insert_rune 0x62 w1 = Some w2 \<and>
      last_vcommand_class (view w1) = vcommand_class_insertion \<and>
      history (buf w1) = Some 1 \<and> history (buf w2) = Some 1 \<and>
      a_data a1 = [0x61] \<and> a_data a2 = [0x62] \<and> g_actions (groups w2 1) = [a1, a2]"
    by auto
  have r3: "case run_commands spec_env
                 [(vcommand_insert_rune, 0x61), (vcommand_move_cursor_backward, 0),
                  (vcommand_insert_rune, 0x62)] world0
            of None \<Rightarrow> False
            | Some w \<Rightarrow> history (buf w) = Some 2 \<and> length (g_actions (groups w 1)) = 1 \<and>
                line_data (lines w 0) = [0x62, 0x61]"
    by code_simp
  then obtain v1 v2 v3 where s': "on_vcommand spec_env vcommand_insert_rune 0x61 world0 = Some v1"
    "on_vcommand spec_env vcommand_move_cursor_backward 0 v1 = Some v2"
    "on_vcommand spec_env vcommand_insert_rune 0x62 v2 = Some v3"
    and p': "history (buf v3) = Some 2" "length (g_actions (groups v3 1)) = 1"
      "line_data (lines v3 0) = [0x62, 0x61]"
    by (auto split: option.splits bind_splits)
  have succ: "\<forall>n. g_next (groups world0 0) = Some n \<longrightarrow> n < groups_new world0"
    using a(3,4) by simp
  note t5 = t [THEN conjunct2, THEN conjunct2, THEN conjunct2, THEN conjunct2, rule_format,
      of 0 vcommand_move_cursor_backward v1 0 v2 v3]
  from t5 a(1,2,5) succ s' obtain g1 g3 bs b1 b3 where
    h: "history (buf v1) = Some g1" "history (buf v3) = Some g3"
    "g_prev (groups v3 g3) = Some g1"
    "a_data b1 = EncodeRune 0x61" "a_data b3 = EncodeRune 0x62"
    "g_actions (groups v1 g1) = group_append spec_env bs b1"
    "g_actions (groups v3 g1) = group_append spec_env bs b1"
    "g_actions (groups v3 g3) = group_append spec_env [] b3"
    by blast
  from s s'(1) g(1) g1 h(1) have e1: "g1 = 1"
    by simp
  from h(2) p'(1) have e3: "g3 = 2"
    by simp
  from h(7) p'(2) have "length (bs @ [b1]) = 1"
    unfolding e1 by (simp add: app)
  then have e0: "bs = []"
    by simp
  have "\<exists>w1 w2 w3 a1 a3.
      on_vcommand spec_env vcommand_insert_rune 0x61 world0 = Some w1 \<and>
      on_vcommand spec_env vcommand_move_cursor_backward 0 w1 = Some w2 \<and>
      on_vcommand spec_env vcommand_insert_rune 0x62 w2 = Some w3 \<and>
      history (buf w1) = Some 1 \<and> history (buf w3) = Some 2 \<and>
      g_prev (groups w3 2) = Some 1 \<and> a_data a1 = [0x61] \<and> a_data a3 = [0x62] \<and>
      g_actions (groups w3 1) = [a1] \<and> g_actions (groups w3 2) = [a3] \<and>
      line_data (lines w3 0) = [0x62, 0x61]"
    using s' h [unfolded e1 e3 e0] p' enc by (auto simp: app)
  with a A B show ?thesis
    by simp
qed

section \<open>Claim C9: cursor moves at the boundaries of the buffer\<close>

text \<open>
  The word motion of the instance at the end of the buffer: on the last line, with no
  word character from the cursor on, it reports the boundary and returns the cursor
  as it is.
\<close>

lemma spec_move_one_word_forward_boundary:
  assumes "c_line c = Some l" and "line_next (ls l) = None" and "0 \<le> c_boffset c"
    and "\<forall>x\<in>set (runes (drop (nat (c_boffset c)) (line_data (ls l)))). \<not> is_word (fst x)"
  shows "spec_move_one_word_forward ls c = (c, False)"
proof -
  let ?rs = "runes (drop (nat (c_boffset c)) (line_data (ls l)))"
  from assms(4) have "list_all (\<lambda>x. \<not> is_word (fst x)) ?rs"
    by (simp add: list_all_iff)
  moreover have "set (dropWhile (\<lambda>x. is_word (fst x)) ?rs) \<subseteq> set ?rs"
    by (rule set_dropWhileD [THEN subsetI]) 
  ultimately have "list_all (\<lambda>x. \<not> is_word (fst x)) (dropWhile (\<lambda>x. is_word (fst x)) ?rs)"
    by (auto simp: list_all_iff)
  with assms(1,2) have "on_last_word ls c"
    by (simp add: on_last_word_def)
  then show ?thesis
    by (simp add: spec_move_one_word_forward_def)
qed

text \<open>
  Claim C9.
  \<^item> Forward at the end of the last line, \<open>move_cursor_forward\<close> returns the world with
    the message "End of buffer" handed to the status reporter, and nothing else
    changed.
  \<^item> Backward at the beginning of the first line, \<open>move_cursor_backward\<close> returns the
    world with the message "Beginning of buffer", and nothing else changed.
  \<^item> With the word motion of the instance (\<open>move_one_word_forward\<close> is of another
    file), when the cursor is on the last word of the last line (inside it, at its
    end or after it), \<open>move_cursor_word_forward\<close> returns, the cursor of the view, the
    buffer and the lines are unchanged, and the message is "End of buffer". So it is,
    in particular, on the last line when no word character follows the cursor.
\<close>

theorem boundary_moves_report:
  "(c_last_line (lines w) (cursor (view w)) = Some True \<and>
    c_eol (lines w) (cursor (view w)) = Some True \<longrightarrow>
      move_cursor_forward E w = Some (w\<lparr>sr := ''End of buffer'' # sr w\<rparr>)) \<and>
   (c_first_line (lines w) (cursor (view w)) = Some True \<and> c_bol (cursor (view w)) \<longrightarrow>
      move_cursor_backward E w = Some (w\<lparr>sr := ''Beginning of buffer'' # sr w\<rparr>)) \<and>
   (on_last_word (lines w) (cursor (view w)) \<and>
    0 \<le> c_boffset (cursor (view w)) \<and> top_line (view w) \<noteq> None \<longrightarrow>
      (\<exists>w'. move_cursor_word_forward
               (E\<lparr>move_one_word_forward := spec_move_one_word_forward\<rparr>) w = Some w' \<and>
         cursor (view w') = cursor (view w) \<and>
         buf w' = buf w \<and> lines w' = lines w \<and> sr w' = ''End of buffer'' # sr w)) \<and>
   (\<forall>l. c_line c = Some l \<and> line_next (ls l) = None \<and> 0 \<le> c_boffset c \<and>
        (\<forall>x\<in>set (runes (drop (nat (c_boffset c)) (line_data (ls l)))). \<not> is_word (fst x)) \<longrightarrow>
        spec_move_one_word_forward ls c = (c, False))"
proof -
  have A: "c_last_line (lines w) (cursor (view w)) = Some True \<and>
    c_eol (lines w) (cursor (view w)) = Some True \<longrightarrow>
      move_cursor_forward E w = Some (w\<lparr>sr := ''End of buffer'' # sr w\<rparr>)"
    by (simp add: move_cursor_forward_def Let_def set_status_def)
  have B: "c_first_line (lines w) (cursor (view w)) = Some True \<and> c_bol (cursor (view w)) \<longrightarrow>
      move_cursor_backward E w = Some (w\<lparr>sr := ''Beginning of buffer'' # sr w\<rparr>)"
    by (simp add: move_cursor_backward_def Let_def set_status_def)
  let ?E = "E\<lparr>move_one_word_forward := spec_move_one_word_forward\<rparr>"
  have C: "\<exists>w'. move_cursor_word_forward ?E w = Some w' \<and> cursor (view w') = cursor (view w) \<and>
         buf w' = buf w \<and> lines w' = lines w \<and> sr w' = ''End of buffer'' # sr w"
    if h: "on_last_word (lines w) (cursor (view w)) \<and>
           0 \<le> c_boffset (cursor (view w)) \<and> top_line (view w) \<noteq> None"
  proof -
    let ?c = "cursor (view w)"
    from h have m: "move_one_word_forward ?E (lines w) ?c = (?c, False)"
      by (simp add: spec_move_one_word_forward_def)
    from h have "move_cursor_to ?E (lines w) ?c (view w) \<noteq> None"
      by (intro move_cursor_to_returns) simp_all
    then obtain v' where v': "move_cursor_to ?E (lines w) ?c (view w) = Some v'"
      by blast
    from move_cursor_to_cursor [OF v'] h have "cursor v' = ?c"
      by (intro cursor_location.equality) simp_all
    moreover have "move_cursor_word_forward ?E w =
        Some (set_status ''End of buffer'' (w\<lparr>view := v'\<rparr>))"
      using m v' by (simp add: move_cursor_word_forward_def with_view_def)
    ultimately show ?thesis
      by (simp add: set_status_def)
  qed
  have D: "\<forall>l. c_line c = Some l \<and> line_next (ls l) = None \<and> 0 \<le> c_boffset c \<and>
        (\<forall>x\<in>set (runes (drop (nat (c_boffset c)) (line_data (ls l)))). \<not> is_word (fst x)) \<longrightarrow>
        spec_move_one_word_forward ls c = (c, False)"
    using spec_move_one_word_forward_boundary by blast
  from A B C D show ?thesis
    by blast
qed

text \<open>The world \<open>world_ab\<close> with the cursor inside the word \<open>ab\<close>, after its first byte.\<close>

definition world_ab_mid :: "(unit, unit) world" where
  "world_ab_mid =
     world_ab\<lparr>view := (view world_ab)
       \<lparr>cursor := \<lparr>c_line = Some 0, c_line_num = 1, c_boffset = 1\<rparr>,
        cursor_coffset := 1, cursor_voffset := 1, last_cursor_voffset := 1\<rparr>\<rparr>"

theorem boundary_moves_report_witness:
  "c_last_line (lines world_ab) (cursor (view world_ab)) = Some True \<and>
   c_eol (lines world_ab) (cursor (view world_ab)) = Some True \<and>
   move_cursor_forward spec_env world_ab = Some (world_ab\<lparr>sr := [''End of buffer'']\<rparr>) \<and>
   c_first_line (lines world0) (cursor (view world0)) = Some True \<and>
   c_bol (cursor (view world0)) \<and>
   move_cursor_backward spec_env world0 = Some (world0\<lparr>sr := [''Beginning of buffer'']\<rparr>) \<and>
   on_last_word (lines world_ab_mid) (cursor (view world_ab_mid)) \<and>
   (\<exists>w'. move_cursor_word_forward spec_env world_ab_mid = Some w' \<and>
      cursor (view w') = \<lparr>c_line = Some 0, c_line_num = 1, c_boffset = 1\<rparr> \<and>
      buf w' = buf world_ab_mid \<and> lines w' = lines world_ab_mid \<and>
      sr w' = [''End of buffer'']) \<and>
   on_last_word (lines world_ab) (cursor (view world_ab)) \<and>
   (\<exists>w'. move_cursor_word_forward spec_env world_ab = Some w' \<and>
      cursor (view w') = \<lparr>c_line = Some 0, c_line_num = 1, c_boffset = 2\<rparr> \<and>
      buf w' = buf world_ab \<and> lines w' = lines world_ab \<and> sr w' = [''End of buffer''])"
proof -
  have a: "c_last_line (lines world_ab) (cursor (view world_ab)) = Some True"
    "c_eol (lines world_ab) (cursor (view world_ab)) = Some True"
    "c_first_line (lines world0) (cursor (view world0)) = Some True"
    "c_bol (cursor (view world0))"
    "sr world_ab = []" "sr world0 = []"
    "cursor (view world_ab) = \<lparr>c_line = Some 0, c_line_num = 1, c_boffset = 2\<rparr>"
    "top_line (view world_ab) = Some 0"
    "on_last_word (lines world_ab) (cursor (view world_ab))"
    by code_simp+
  have b: "on_last_word (lines world_ab_mid) (cursor (view world_ab_mid))"
    "cursor (view world_ab_mid) = \<lparr>c_line = Some 0, c_line_num = 1, c_boffset = 1\<rparr>"
    "top_line (view world_ab_mid) = Some 0" "sr world_ab_mid = []"
    by code_simp+
  have e: "spec_env\<lparr>move_one_word_forward := spec_move_one_word_forward\<rparr> = spec_env"
    by (simp add: spec_env_def)
  note t1 = boundary_moves_report [where w = world_ab and E = spec_env]
  note t2 = boundary_moves_report [where w = world0 and E = spec_env]
  note t3 = boundary_moves_report [where w = world_ab_mid and E = spec_env]
  from t1 a(1,2,5) have A: "move_cursor_forward spec_env world_ab =
      Some (world_ab\<lparr>sr := [''End of buffer'']\<rparr>)"
    by simp
  from t2 a(3,4,6) have B: "move_cursor_backward spec_env world0 =
      Some (world0\<lparr>sr := [''Beginning of buffer'']\<rparr>)"
    by simp
  from t1 [THEN conjunct2, THEN conjunct2, THEN conjunct1] a(7,8,9)
  have C: "\<exists>w'. move_cursor_word_forward spec_env world_ab = Some w' \<and>
      cursor (view w') = \<lparr>c_line = Some 0, c_line_num = 1, c_boffset = 2\<rparr> \<and>
      buf w' = buf world_ab \<and> lines w' = lines world_ab \<and> sr w' = [''End of buffer'']"
    using a(5) unfolding e by simp
  from t3 [THEN conjunct2, THEN conjunct2, THEN conjunct1] b(1,2,3)
  have D: "\<exists>w'. move_cursor_word_forward spec_env world_ab_mid = Some w' \<and>
      cursor (view w') = \<lparr>c_line = Some 0, c_line_num = 1, c_boffset = 1\<rparr> \<and>
      buf w' = buf world_ab_mid \<and> lines w' = lines world_ab_mid \<and>
      sr w' = [''End of buffer'']"
    using b(4) unfolding e by simp
  from a A B C D b(1) show ?thesis
    by simp
qed

end
